theory Spec2Isabelle
  imports Main "HOL-Library.Multiset"
begin

section \<open>Abstract syntax (parser.py)\<close>

text \<open>
  The dataclasses of parser.py.  Python dispatches on the node class with
  \<open>isinstance\<close> chains, and \<open>parse_statement\<close> can return any declaration, so
  declarations and statements form one datatype: a \<open>Program\<close> is a list of nodes of
  which \<open>visit_program\<close> handles \<open>FunctionDecl\<close> and \<open>VarDecl\<close> and skips the rest.
  An absent optional child (\<open>None\<close>) is \<open>None\<close>; a present child is an object and
  therefore true in a Python condition.

  The payload of \<open>FloatLiteral\<close> is kept as the text that Python's \<open>str\<close> renders
  for the float, which is the only way a later stage reads it.
\<close>

datatype expr =
    IntLiteral int
  | FloatLiteral string
  | StringLiteral string
  | Identifier string
  | BinaryOp string expr expr
  | UnaryOp string expr
  | FunctionCall string "expr list"
  | Assignment string expr

record Parameter =
  param_type :: string
  param_name :: string

datatype stmt =
    FunctionDecl string string "Parameter list" "stmt list option"
  | VarDecl string string "expr option"
  | CompoundStmt "stmt list"
  | ExpressionStmt "expr option"
  | ReturnStmt "expr option"
  | IfStmt expr stmt "stmt option"
  | WhileStmt expr stmt
  | ForStmt "stmt option" "expr option" "expr option" stmt

section \<open>Decimal rendering of integers (Python \<open>str\<close> and f-strings)\<close>

definition digit_char :: "nat \<Rightarrow> char" where
  "digit_char d = ''0123456789'' ! d"

fun str_nat :: "nat \<Rightarrow> string" where
  "str_nat n = (if n < 10 then [digit_char n] else str_nat (n div 10) @ [digit_char (n mod 10)])"

declare str_nat.simps [simp del]

definition str_int :: "int \<Rightarrow> string" where
  "str_int i = (if i < 0 then CHR ''-'' # str_nat (nat (- i)) else str_nat (nat i))"

section \<open>Lexical analysis (lexer.py)\<close>

text \<open>
  A source string is a list of \<open>char\<close>, one per code point (code points below 256).
  The members of the enumeration \<open>TokenType\<close> carry the prefix \<open>T_\<close>, since some of the
  bare names are taken.
\<close>

datatype TokenType =
    T_INT | T_FLOAT | T_CHAR | T_IF | T_ELSE | T_WHILE | T_FOR | T_RETURN | T_VOID
  | T_IDENTIFIER | T_INTEGER_LITERAL | T_FLOAT_LITERAL | T_STRING_LITERAL
  | T_PLUS | T_MINUS | T_MULTIPLY | T_DIVIDE | T_MODULO | T_ASSIGN | T_EQUAL | T_NOT_EQUAL
  | T_LESS_THAN | T_GREATER_THAN | T_LESS_EQUAL | T_GREATER_EQUAL
  | T_LOGICAL_AND | T_LOGICAL_OR | T_LOGICAL_NOT
  | T_SEMICOLON | T_COMMA | T_LPAREN | T_RPAREN | T_LBRACE | T_RBRACE | T_LBRACKET | T_RBRACKET
  | T_EOF | T_NEWLINE

record Token =
  tok_type :: TokenType
  tok_value :: string
  tok_line :: nat
  tok_column :: nat

record Lexer =
  source :: string
  position :: nat
  line :: nat
  column :: nat
  tokens :: "Token list"

definition new_lexer :: "string \<Rightarrow> Lexer" where
  "new_lexer source_code = \<lparr>source = source_code, position = 0, line = 1, column = 1, tokens = []\<rparr>"

definition KEYWORDS :: "(string \<times> TokenType) list" where
  "KEYWORDS =
     [(''int'', T_INT), (''float'', T_FLOAT), (''char'', T_CHAR), (''if'', T_IF), (''else'', T_ELSE),
      (''while'', T_WHILE), (''for'', T_FOR), (''return'', T_RETURN), (''void'', T_VOID)]"

text \<open>Python's \<open>str.isdigit\<close>, \<open>str.isalpha\<close> and \<open>str.isalnum\<close> on the code points below
  256.\<close>

definition isdigit :: "char \<Rightarrow> bool" where
  "isdigit c = (let n = (of_char c :: nat) in (48 \<le> n \<and> n \<le> 57) \<or> n = 178 \<or> n = 179 \<or> n = 185)"

definition isalpha :: "char \<Rightarrow> bool" where
  "isalpha c =
     (let n = (of_char c :: nat)
      in (65 \<le> n \<and> n \<le> 90) \<or> (97 \<le> n \<and> n \<le> 122) \<or> n = 170 \<or> n = 181 \<or> n = 186 \<or>
         (192 \<le> n \<and> n \<le> 214) \<or> (216 \<le> n \<and> n \<le> 246) \<or> (248 \<le> n \<and> n \<le> 255))"

definition isalnum :: "char \<Rightarrow> bool" where
  "isalnum c = (isalpha c \<or> isdigit c \<or> (let n = (of_char c :: nat) in 188 \<le> n \<and> n \<le> 190))"

text \<open>\<open>Lexer.error\<close> raises \<open>SyntaxError\<close> with this message.\<close>

definition lexical_error_text :: "nat \<Rightarrow> nat \<Rightarrow> string \<Rightarrow> string" where
  "lexical_error_text l c message =
     ''Lexical error at line '' @ str_nat l @ '', column '' @ str_nat c @ '': '' @ message"

definition error_lex :: "string \<Rightarrow> Lexer \<Rightarrow> string" where
  "error_lex message lx = lexical_error_text (line lx) (column lx) message"

definition current_char :: "Lexer \<Rightarrow> char option" where
  "current_char lx = (if position lx \<ge> length (source lx) then None else Some (source lx ! position lx))"

definition peek_char :: "Lexer \<Rightarrow> char option" where
  "peek_char lx =
     (let pos = position lx + 1
      in if pos \<ge> length (source lx) then None else Some (source lx ! pos))"

definition advance :: "Lexer \<Rightarrow> Lexer" where
  "advance lx =
     (if position lx < length (source lx)
        then (if source lx ! position lx = CHR 0x0A
                then lx\<lparr>line := line lx + 1, column := 1, position := position lx + 1\<rparr>
              else lx\<lparr>column := column lx + 1, position := position lx + 1\<rparr>)
      else lx)"

function skip_whitespace :: "Lexer \<Rightarrow> Lexer" where
  "skip_whitespace lx =
     (case current_char lx of
        Some c \<Rightarrow> (if c \<in> set [CHR '' '', CHR 0x09, CHR 0x0D, CHR 0x0A] then skip_whitespace (advance lx) else lx)
      | None \<Rightarrow> lx)"
  by pat_completeness auto
termination
  by (relation "measure (\<lambda>lx. length (source lx) - position lx)")
     (auto simp: current_char_def advance_def split: if_splits)

text \<open>The two loops of \<open>skip_comment\<close>: to the end of the line, and to the closing
  \<open>*/\<close> or the end of the input.\<close>

function skip_line :: "Lexer \<Rightarrow> Lexer" where
  "skip_line lx =
     (case current_char lx of
        Some c \<Rightarrow> (if c \<noteq> CHR 0x0A then skip_line (advance lx) else lx)
      | None \<Rightarrow> lx)"
  by pat_completeness auto
termination
  by (relation "measure (\<lambda>lx. length (source lx) - position lx)")
     (auto simp: current_char_def advance_def split: if_splits)

function skip_block :: "Lexer \<Rightarrow> Lexer" where
  "skip_block lx =
     (case current_char lx of
        Some c \<Rightarrow>
          (if c = CHR ''*'' \<and> peek_char lx = Some CHR ''/'' then advance (advance lx)
           else skip_block (advance lx))
      | None \<Rightarrow> lx)"
  by pat_completeness auto
termination
  by (relation "measure (\<lambda>lx. length (source lx) - position lx)")
     (auto simp: current_char_def advance_def split: if_splits)

definition skip_comment :: "Lexer \<Rightarrow> Lexer" where
  "skip_comment lx =
     (if current_char lx = Some CHR ''/'' \<and> peek_char lx = Some CHR ''/''
        then advance (skip_line lx)
      else if current_char lx = Some CHR ''/'' \<and> peek_char lx = Some CHR ''*''
        then skip_block (advance (advance lx))
      else lx)"

text \<open>\<open>read_number\<close>: the loop with its local variables \<open>num_str\<close> and \<open>is_float\<close>; a
  second \<open>.\<close> raises.\<close>

function read_number_loop :: "string \<Rightarrow> bool \<Rightarrow> Lexer \<Rightarrow> string + (string \<times> bool \<times> Lexer)" where
  "read_number_loop num_str is_float lx =
     (case current_char lx of
        Some c \<Rightarrow>
          (if isdigit c \<or> c = CHR ''.''
             then (if c = CHR ''.''
                     then (if is_float then Inl (error_lex ''Invalid number format'' lx)
                           else read_number_loop (num_str @ [c]) True (advance lx))
                   else read_number_loop (num_str @ [c]) is_float (advance lx))
           else Inr (num_str, is_float, lx))
      | None \<Rightarrow> Inr (num_str, is_float, lx))"
  by pat_completeness auto
termination
  by (relation "measure (\<lambda>(num_str, is_float, lx). length (source lx) - position lx)")
     (auto simp: current_char_def advance_def split: if_splits)

definition read_number :: "Lexer \<Rightarrow> string + (Token \<times> Lexer)" where
  "read_number lx =
     (case read_number_loop [] False lx of
        Inl e \<Rightarrow> Inl e
      | Inr (num_str, is_float, lx') \<Rightarrow>
          Inr (\<lparr>tok_type = (if is_float then T_FLOAT_LITERAL else T_INTEGER_LITERAL),
                tok_value = num_str, tok_line = line lx, tok_column = column lx\<rparr>, lx'))"

function read_identifier_loop :: "string \<Rightarrow> Lexer \<Rightarrow> string \<times> Lexer" where
  "read_identifier_loop identifier lx =
     (case current_char lx of
        Some c \<Rightarrow>
          (if isalnum c \<or> c = CHR ''_'' then read_identifier_loop (identifier @ [c]) (advance lx)
           else (identifier, lx))
      | None \<Rightarrow> (identifier, lx))"
  by pat_completeness auto
termination
  by (relation "measure (\<lambda>(identifier, lx). length (source lx) - position lx)")
     (auto simp: current_char_def advance_def split: if_splits)

definition read_identifier :: "Lexer \<Rightarrow> Token \<times> Lexer" where
  "read_identifier lx =
     (let (identifier, lx') = read_identifier_loop [] lx
      in (\<lparr>tok_type = (case map_of KEYWORDS identifier of Some t \<Rightarrow> t | None \<Rightarrow> T_IDENTIFIER),
           tok_value = identifier, tok_line = line lx, tok_column = column lx\<rparr>, lx'))"

function read_string_loop :: "string \<Rightarrow> Lexer \<Rightarrow> string \<times> Lexer" where
  "read_string_loop string lx =
     (case current_char lx of
        Some c \<Rightarrow>
          (if c \<noteq> CHR 0x22
             then (if c = CHR 0x5C \<and> peek_char lx = Some CHR 0x22
                     then read_string_loop (string @ [CHR 0x22]) (advance (advance lx))
                   else read_string_loop (string @ [c]) (advance lx))
           else (string, lx))
      | None \<Rightarrow> (string, lx))"
  by pat_completeness auto
termination
  by (relation "measure (\<lambda>(string, lx). length (source lx) - position lx)")
     (auto simp: current_char_def advance_def split: if_splits)

definition read_string :: "Lexer \<Rightarrow> string + (Token \<times> Lexer)" where
  "read_string lx =
     (let (string, lx') = read_string_loop [] (advance lx)
      in if current_char lx' = None then Inl (error_lex ''Unterminated string literal'' lx')
         else Inr (\<lparr>tok_type = T_STRING_LITERAL, tok_value = string,
                     tok_line = line lx, tok_column = column lx\<rparr>, advance lx'))"

definition two_char_tokens :: "(string \<times> TokenType) list" where
  "two_char_tokens =
     [(''=='', T_EQUAL), (''!='', T_NOT_EQUAL), (''<='', T_LESS_EQUAL), (''>='', T_GREATER_EQUAL),
      (''&&'', T_LOGICAL_AND), (''||'', T_LOGICAL_OR)]"

definition single_char_tokens :: "(char \<times> TokenType) list" where
  "single_char_tokens =
     [(CHR ''+'', T_PLUS), (CHR ''-'', T_MINUS), (CHR ''*'', T_MULTIPLY), (CHR ''/'', T_DIVIDE),
      (CHR ''%'', T_MODULO), (CHR ''='', T_ASSIGN), (CHR ''<'', T_LESS_THAN), (CHR ''>'', T_GREATER_THAN),
      (CHR ''!'', T_LOGICAL_NOT), (CHR '';'', T_SEMICOLON), (CHR '','', T_COMMA), (CHR ''('', T_LPAREN),
      (CHR '')'', T_RPAREN), (CHR ''{'', T_LBRACE), (CHR ''}'', T_RBRACE), (CHR ''['', T_LBRACKET),
      (CHR '']'', T_RBRACKET)]"

definition append_token :: "Token \<Rightarrow> Lexer \<Rightarrow> Lexer" where
  "append_token t lx = lx\<lparr>tokens := tokens lx @ [t]\<rparr>"


text \<open>The main loop of \<open>tokenize\<close> and, after it, the \<open>EOF\<close> token.  A raise of \<open>error\<close>
  is the result \<open>Inl\<close> with the message.\<close>

function tokenize_loop :: "Lexer \<Rightarrow> string + Lexer" where
  "tokenize_loop lx =
     (case current_char lx of
        None \<Rightarrow> Inr lx
      | Some c0 \<Rightarrow>
          (let lx1 = skip_whitespace lx
           in case current_char lx1 of
                None \<Rightarrow> Inr lx1
              | Some c \<Rightarrow>
                  if c = CHR ''/'' \<and> (peek_char lx1 = Some CHR ''/'' \<or> peek_char lx1 = Some CHR ''*'')
                    then tokenize_loop (skip_comment lx1)
                  else if isdigit c
                    then (case read_number lx1 of
                            Inl e \<Rightarrow> Inl e
                          | Inr (t, lx2) \<Rightarrow> tokenize_loop (append_token t lx2))
                  else if isalpha c \<or> c = CHR ''_''
                    then (case read_identifier lx1 of (t, lx2) \<Rightarrow> tokenize_loop (append_token t lx2))
                  else if c = CHR 0x22
                    then (case read_string lx1 of
                            Inl e \<Rightarrow> Inl e
                          | Inr (t, lx2) \<Rightarrow> tokenize_loop (append_token t lx2))
                  else
                    (let two_char = c # (case peek_char lx1 of Some next_char \<Rightarrow> [next_char] | None \<Rightarrow> [])
                     in case map_of two_char_tokens two_char of
                          Some tt \<Rightarrow>
                            tokenize_loop
                              (advance (advance (append_token
                                 \<lparr>tok_type = tt, tok_value = two_char,
                                  tok_line = line lx1, tok_column = column lx1\<rparr> lx1)))
                        | None \<Rightarrow>
                            (case map_of single_char_tokens c of
                               Some tt \<Rightarrow>
                                 tokenize_loop
                                   (advance (append_token
                                      \<lparr>tok_type = tt, tok_value = [c],
                                       tok_line = line lx1, tok_column = column lx1\<rparr> lx1))
                             | None \<Rightarrow>
                                 Inl (error_lex (''Unexpected character: '' @ [CHR 0x27, c, CHR 0x27]) lx1)))))"
  by pat_completeness auto


text \<open>Termination of the main loop: every helper leaves the source alone and never
  moves the position back (\<open>ahead\<close>), and each branch of the loop that goes round again
  has consumed at least one character.\<close>

declare skip_whitespace.simps [simp del] skip_line.simps [simp del] skip_block.simps [simp del]
  read_number_loop.simps [simp del] read_identifier_loop.simps [simp del]
  read_string_loop.simps [simp del]

definition ahead :: "Lexer \<Rightarrow> Lexer \<Rightarrow> bool" where
  "ahead lx lx' \<longleftrightarrow>
     source lx' = source lx \<and> position lx \<le> position lx' \<and> tokens lx' = tokens lx"

lemma ahead_refl: "ahead lx lx"
  by (simp add: ahead_def)

lemma ahead_trans: "ahead a b \<Longrightarrow> ahead b c \<Longrightarrow> ahead a c"
  by (auto simp: ahead_def)

lemma ahead_advance: "ahead lx (advance lx)"
  by (simp add: ahead_def advance_def)

lemma ahead_advance_left: "ahead (advance lx) lx' \<Longrightarrow> ahead lx lx'"
  using ahead_advance ahead_trans by blast

lemma ahead_strict:
  "current_char lx = Some c \<Longrightarrow> ahead (advance lx) lx' \<Longrightarrow>
   source lx' = source lx \<and> position lx < position lx' \<and> position lx < length (source lx)"
  by (auto simp: ahead_def advance_def current_char_def split: if_splits)

lemma ahead_skip_whitespace: "ahead lx (skip_whitespace lx)"
  by (induction lx rule: skip_whitespace.induct, subst skip_whitespace.simps)
     (auto simp: ahead_refl split: option.splits intro: ahead_advance_left)

lemma ahead_skip_line: "ahead lx (skip_line lx)"
  by (induction lx rule: skip_line.induct, subst skip_line.simps)
     (auto simp: ahead_refl split: option.splits intro: ahead_advance_left)

lemma ahead_skip_block: "ahead lx (skip_block lx)"
  by (induction lx rule: skip_block.induct, subst skip_block.simps)
     (auto simp: ahead_refl split: option.splits intro: ahead_advance_left ahead_advance)

lemma ahead_read_number_loop:
  "read_number_loop num_str is_float lx = Inr (num_str', is_float', lx') \<Longrightarrow> ahead lx lx'"
proof (induction num_str is_float lx rule: read_number_loop.induct)
  case (1 num_str is_float lx)
  from "1.prems" show ?case
    by (subst (asm) read_number_loop.simps)
       (auto simp: ahead_refl split: option.splits if_splits intro: ahead_advance_left "1.IH")
qed

lemma ahead_read_identifier_loop:
  "read_identifier_loop ident lx = (ident', lx') \<Longrightarrow> ahead lx lx'"
proof (induction ident lx rule: read_identifier_loop.induct)
  case (1 ident lx)
  from "1.prems" show ?case
    by (subst (asm) read_identifier_loop.simps)
       (auto simp: ahead_refl split: option.splits if_splits intro: ahead_advance_left "1.IH")
qed

lemma ahead_read_string_loop:
  "read_string_loop str lx = (str', lx') \<Longrightarrow> ahead lx lx'"
proof (induction str lx rule: read_string_loop.induct)
  case (1 str lx)
  from "1.prems" show ?case
    by (subst (asm) read_string_loop.simps)
       (auto simp: ahead_refl split: option.splits if_splits intro: ahead_advance_left "1.IH")
qed

lemma skip_comment_progress:
  assumes "current_char lx = Some CHR ''/''"
    and "peek_char lx = Some CHR ''/'' \<or> peek_char lx = Some CHR ''*''"
  shows "source (skip_comment lx) = source lx \<and> position lx < position (skip_comment lx) \<and>
         position lx < length (source lx)"
proof (rule ahead_strict[OF assms(1)])
  show "ahead (advance lx) (skip_comment lx)"
  proof (cases "peek_char lx = Some CHR ''/''")
    case True
    have "skip_line lx = skip_line (advance lx)"
      using assms(1) by (subst skip_line.simps) simp
    then have "ahead (advance lx) (skip_line lx)" by (simp add: ahead_skip_line)
    then show ?thesis using True assms(1)
      by (auto simp: skip_comment_def intro: ahead_trans ahead_advance)
  next
    case False
    with assms(2) have "peek_char lx = Some CHR ''*''" by simp
    then show ?thesis using assms(1)
      by (auto simp: skip_comment_def intro: ahead_trans ahead_advance ahead_skip_block)
  qed
qed

lemma read_number_progress:
  assumes "read_number lx = Inr (t, lx')" and "current_char lx = Some c" and "isdigit c"
  shows "source lx' = source lx \<and> position lx < position lx' \<and> position lx < length (source lx)"
proof (rule ahead_strict[OF assms(2)])
  from assms(1) obtain n f where r: "read_number_loop [] False lx = Inr (n, f, lx')"
    by (auto simp: read_number_def split: sum.splits)
  have "c \<noteq> CHR ''.''" using assms(3) by (auto simp: isdigit_def)
  with r assms(2,3) have "read_number_loop [c] False (advance lx) = Inr (n, f, lx')"
    by (subst (asm) read_number_loop.simps) simp
  then show "ahead (advance lx) lx'" by (rule ahead_read_number_loop)
qed

lemma isalpha_isalnum: "isalpha c \<Longrightarrow> isalnum c"
  by (simp add: isalnum_def)

lemma read_identifier_progress:
  assumes "read_identifier lx = (t, lx')" and "current_char lx = Some c" and "isalpha c \<or> c = CHR ''_''"
  shows "source lx' = source lx \<and> position lx < position lx' \<and> position lx < length (source lx)"
proof (rule ahead_strict[OF assms(2)])
  from assms(1) obtain n where r: "read_identifier_loop [] lx = (n, lx')"
    by (auto simp: read_identifier_def split: prod.splits)
  from assms(3) have "isalnum c \<or> c = CHR ''_''" using isalpha_isalnum by blast
  with r assms(2) have "read_identifier_loop [c] (advance lx) = (n, lx')"
    by (subst (asm) read_identifier_loop.simps) auto
  then show "ahead (advance lx) lx'" by (rule ahead_read_identifier_loop)
qed

lemma read_string_progress:
  assumes "read_string lx = Inr (t, lx')" and "current_char lx = Some c"
  shows "source lx' = source lx \<and> position lx < position lx' \<and> position lx < length (source lx)"
proof (rule ahead_strict[OF assms(2)])
  from assms(1) obtain n lx1 where r: "read_string_loop [] (advance lx) = (n, lx1)"
    and lx': "lx' = advance lx1"
    by (auto simp: read_string_def split: prod.splits if_splits)
  from r have "ahead (advance lx) lx1" by (rule ahead_read_string_loop)
  then show "ahead (advance lx) lx'" unfolding lx' using ahead_advance ahead_trans by blast
qed

lemma tokenize_measure:
  assumes "source lx' = source lx1 \<and> position lx1 < position lx' \<and> position lx1 < length (source lx1)"
    and "lx1 = skip_whitespace lx"
  shows "(lx', lx) \<in> measure (\<lambda>lx. length (source lx) - position lx)"
  using assms ahead_skip_whitespace[of lx] by (auto simp: ahead_def)

termination tokenize_loop
proof (relation "measure (\<lambda>lx. length (source lx) - position lx)", goal_cases)
  case 1
  show ?case by simp
next
  case (2 lx c0 lx1 c)
  then show ?case by (intro tokenize_measure[of _ lx1] skip_comment_progress) auto
next
  case (3 lx c0 lx1 c x t lx2)
  then have "source lx2 = source lx1 \<and> position lx1 < position lx2 \<and> position lx1 < length (source lx1)"
    by (intro read_number_progress[of lx1 "fst x" lx2 c]) auto
  with 3 show ?case by (intro tokenize_measure[of _ lx1]) (auto simp: append_token_def)
next
  case (4 lx c0 lx1 c t lx2)
  then have "source lx2 = source lx1 \<and> position lx1 < position lx2 \<and> position lx1 < length (source lx1)"
    by (intro read_identifier_progress[of lx1 t lx2 c]) auto
  with 4 show ?case by (intro tokenize_measure[of _ lx1]) (auto simp: append_token_def)
next
  case (5 lx c0 lx1 c x t lx2)
  then have "source lx2 = source lx1 \<and> position lx1 < position lx2 \<and> position lx1 < length (source lx1)"
    by (intro read_string_progress[of lx1 "fst x" lx2 c]) auto
  with 5 show ?case by (intro tokenize_measure[of _ lx1]) (auto simp: append_token_def)
next
  case (6 lx c0 lx1 c two_char tt)
  then show ?case
    by (intro tokenize_measure[of _ lx1])
       (auto simp: append_token_def advance_def current_char_def split: if_splits)
next
  case (7 lx c0 lx1 c two_char tt)
  then show ?case
    by (intro tokenize_measure[of _ lx1])
       (auto simp: append_token_def advance_def current_char_def split: if_splits)
qed


declare tokenize_loop.simps [simp del]

definition tokenize :: "Lexer \<Rightarrow> string + Token list" where
  "tokenize lx =
     (case tokenize_loop lx of
        Inl e \<Rightarrow> Inl e
      | Inr lx' \<Rightarrow>
          Inr (tokens lx' @ [\<lparr>tok_type = T_EOF, tok_value = [], tok_line = line lx', tok_column = column lx'\<rparr>]))"

section \<open>Syntax analysis: expressions (parser.py)\<close>

text \<open>
  The parser object: the token list and the index of the current token.  The attribute
  \<open>current_token\<close> always equals \<open>tokens[position]\<close> (and is \<open>None\<close> for an empty list),
  so it is a function of the two fields here.  The fields carry the suffix \<open>_p\<close> because
  the lexer has fields of the same names.

  What ends a parsing method early: \<open>SyntaxError\<close> raised by \<open>error\<close>, \<open>AttributeError\<close>
  when \<open>current_token\<close> is \<open>None\<close> and its \<open>type\<close> is read, and \<open>ValueError\<close> from Python's
  \<open>int\<close> and \<open>float\<close>.  These two conversions are not code of this repository; they are
  parameters: \<open>py_int\<close> gives the integer, \<open>py_float\<close> gives the text that \<open>str\<close> renders
  for the float, and \<open>None\<close> stands for \<open>ValueError\<close>.

  The methods call each other recursively and Python bounds the depth of the recursion;
  here every method takes a bound \<open>n\<close> on the depth of calls, and \<open>None\<close> says that the
  bound was reached.
\<close>

record Parser =
  tokens_p :: "Token list"
  position_p :: nat

record Conversions =
  py_int :: "string \<Rightarrow> int option"
  py_float :: "string \<Rightarrow> string option"

datatype parse_exn = SyntaxError string | AttributeError | ValueError

definition new_parser :: "Token list \<Rightarrow> Parser" where
  "new_parser ts = \<lparr>tokens_p = ts, position_p = 0\<rparr>"

definition current_token :: "Parser \<Rightarrow> Token option" where
  "current_token p =
     (if position_p p < length (tokens_p p) then Some (tokens_p p ! position_p p) else None)"

fun type_name :: "TokenType \<Rightarrow> string" where
  "type_name T_INT = ''INT''" | "type_name T_FLOAT = ''FLOAT''" | "type_name T_CHAR = ''CHAR''"
| "type_name T_IF = ''IF''" | "type_name T_ELSE = ''ELSE''" | "type_name T_WHILE = ''WHILE''"
| "type_name T_FOR = ''FOR''" | "type_name T_RETURN = ''RETURN''" | "type_name T_VOID = ''VOID''"
| "type_name T_IDENTIFIER = ''IDENTIFIER''" | "type_name T_INTEGER_LITERAL = ''INTEGER_LITERAL''"
| "type_name T_FLOAT_LITERAL = ''FLOAT_LITERAL''" | "type_name T_STRING_LITERAL = ''STRING_LITERAL''"
| "type_name T_PLUS = ''PLUS''" | "type_name T_MINUS = ''MINUS''" | "type_name T_MULTIPLY = ''MULTIPLY''"
| "type_name T_DIVIDE = ''DIVIDE''" | "type_name T_MODULO = ''MODULO''" | "type_name T_ASSIGN = ''ASSIGN''"
| "type_name T_EQUAL = ''EQUAL''" | "type_name T_NOT_EQUAL = ''NOT_EQUAL''"
| "type_name T_LESS_THAN = ''LESS_THAN''" | "type_name T_GREATER_THAN = ''GREATER_THAN''"
| "type_name T_LESS_EQUAL = ''LESS_EQUAL''" | "type_name T_GREATER_EQUAL = ''GREATER_EQUAL''"
| "type_name T_LOGICAL_AND = ''LOGICAL_AND''" | "type_name T_LOGICAL_OR = ''LOGICAL_OR''"
| "type_name T_LOGICAL_NOT = ''LOGICAL_NOT''" | "type_name T_SEMICOLON = ''SEMICOLON''"
| "type_name T_COMMA = ''COMMA''" | "type_name T_LPAREN = ''LPAREN''" | "type_name T_RPAREN = ''RPAREN''"
| "type_name T_LBRACE = ''LBRACE''" | "type_name T_RBRACE = ''RBRACE''"
| "type_name T_LBRACKET = ''LBRACKET''" | "type_name T_RBRACKET = ''RBRACKET''"
| "type_name T_EOF = ''EOF''" | "type_name T_NEWLINE = ''NEWLINE''"

text \<open>\<open>Parser.error\<close> raises \<open>SyntaxError\<close> with this message.\<close>

definition parse_error_text :: "Token option \<Rightarrow> string \<Rightarrow> string" where
  "parse_error_text tok message =
     (case tok of
        Some t \<Rightarrow> ''Parse error at line '' @ str_nat (tok_line t) @ '', column '' @
                  str_nat (tok_column t) @ '': '' @ message
      | None \<Rightarrow> ''Parse error: '' @ message)"

definition error_p :: "string \<Rightarrow> Parser \<Rightarrow> parse_exn" where
  "error_p message p = SyntaxError (parse_error_text (current_token p) message)"

definition advance_p :: "Parser \<Rightarrow> Parser" where
  "advance_p p = (if position_p p + 1 < length (tokens_p p) then p\<lparr>position_p := position_p p + 1\<rparr> else p)"

definition expect :: "TokenType \<Rightarrow> Parser \<Rightarrow> parse_exn + (Token \<times> Parser)" where
  "expect token_type p =
     (case current_token p of
        None \<Rightarrow> Inl AttributeError
      | Some t \<Rightarrow>
          (if tok_type t \<noteq> token_type
             then Inl (error_p (''Expected '' @ type_name token_type @ '', got '' @ type_name (tok_type t)) p)
           else Inr (t, advance_p p)))"

text \<open>The loop shared by the five binary levels (\<open>parse_logical_or\<close> down to
  \<open>parse_multiplicative\<close>): while the current token is one of \<open>ops\<close>, take its text as
  operator, advance, parse the right operand with the next level \<open>sub\<close>, and fold to the
  left.\<close>

fun binary_loop ::
  "nat \<Rightarrow> TokenType list \<Rightarrow> (Parser \<Rightarrow> (parse_exn + (expr \<times> Parser)) option) \<Rightarrow> expr \<Rightarrow> Parser
   \<Rightarrow> (parse_exn + (expr \<times> Parser)) option" where
  "binary_loop 0 ops sub left p = None"
| "binary_loop (Suc n) ops sub left p =
     (case current_token p of
        None \<Rightarrow> Some (Inl AttributeError)
      | Some t \<Rightarrow>
          (if tok_type t \<in> set ops
             then (case sub (advance_p p) of
                     None \<Rightarrow> None
                   | Some (Inl e) \<Rightarrow> Some (Inl e)
                   | Some (Inr (right, p1)) \<Rightarrow> binary_loop n ops sub (BinaryOp (tok_value t) left right) p1)
           else Some (Inr (left, p))))"

definition binary_level ::
  "nat \<Rightarrow> TokenType list \<Rightarrow> (Parser \<Rightarrow> (parse_exn + (expr \<times> Parser)) option) \<Rightarrow> Parser
   \<Rightarrow> (parse_exn + (expr \<times> Parser)) option" where
  "binary_level n ops sub p =
     (case sub p of
        None \<Rightarrow> None
      | Some (Inl e) \<Rightarrow> Some (Inl e)
      | Some (Inr (left, p1)) \<Rightarrow> binary_loop n ops sub left p1)"

fun parse_expression :: "Conversions \<Rightarrow> nat \<Rightarrow> Parser \<Rightarrow> (parse_exn + (expr \<times> Parser)) option"
  and parse_logical_or :: "Conversions \<Rightarrow> nat \<Rightarrow> Parser \<Rightarrow> (parse_exn + (expr \<times> Parser)) option"
  and parse_logical_and :: "Conversions \<Rightarrow> nat \<Rightarrow> Parser \<Rightarrow> (parse_exn + (expr \<times> Parser)) option"
  and parse_equality :: "Conversions \<Rightarrow> nat \<Rightarrow> Parser \<Rightarrow> (parse_exn + (expr \<times> Parser)) option"
  and parse_relational :: "Conversions \<Rightarrow> nat \<Rightarrow> Parser \<Rightarrow> (parse_exn + (expr \<times> Parser)) option"
  and parse_additive :: "Conversions \<Rightarrow> nat \<Rightarrow> Parser \<Rightarrow> (parse_exn + (expr \<times> Parser)) option"
  and parse_multiplicative :: "Conversions \<Rightarrow> nat \<Rightarrow> Parser \<Rightarrow> (parse_exn + (expr \<times> Parser)) option"
  and parse_unary :: "Conversions \<Rightarrow> nat \<Rightarrow> Parser \<Rightarrow> (parse_exn + (expr \<times> Parser)) option"
  and parse_postfix :: "Conversions \<Rightarrow> nat \<Rightarrow> Parser \<Rightarrow> (parse_exn + (expr \<times> Parser)) option"
  and parse_more_arguments ::
    "Conversions \<Rightarrow> nat \<Rightarrow> expr list \<Rightarrow> Parser \<Rightarrow> (parse_exn + (expr list \<times> Parser)) option"
  and parse_primary :: "Conversions \<Rightarrow> nat \<Rightarrow> Parser \<Rightarrow> (parse_exn + (expr \<times> Parser)) option"
where
  "parse_expression cv 0 p = None"
| "parse_expression cv (Suc n) p =
     (case parse_logical_or cv n p of
        None \<Rightarrow> None
      | Some (Inl e) \<Rightarrow> Some (Inl e)
      | Some (Inr (expr, p1)) \<Rightarrow>
          (case current_token p1 of
             None \<Rightarrow> Some (Inl AttributeError)
           | Some t \<Rightarrow>
               (if tok_type t = T_ASSIGN
                  then (case expr of
                          Identifier name \<Rightarrow>
                            (case parse_expression cv n (advance_p p1) of
                               None \<Rightarrow> None
                             | Some (Inl e) \<Rightarrow> Some (Inl e)
                             | Some (Inr (v, p2)) \<Rightarrow> Some (Inr (Assignment name v, p2)))
                        | _ \<Rightarrow> Some (Inl (error_p ''Invalid assignment target'' p1)))
                else Some (Inr (expr, p1)))))"
| "parse_logical_or cv 0 p = None"
| "parse_logical_or cv (Suc n) p = binary_level n [T_LOGICAL_OR] (parse_logical_and cv n) p"
| "parse_logical_and cv 0 p = None"
| "parse_logical_and cv (Suc n) p = binary_level n [T_LOGICAL_AND] (parse_equality cv n) p"
| "parse_equality cv 0 p = None"
| "parse_equality cv (Suc n) p = binary_level n [T_EQUAL, T_NOT_EQUAL] (parse_relational cv n) p"
| "parse_relational cv 0 p = None"
| "parse_relational cv (Suc n) p =
     binary_level n [T_LESS_THAN, T_GREATER_THAN, T_LESS_EQUAL, T_GREATER_EQUAL] (parse_additive cv n) p"
| "parse_additive cv 0 p = None"
| "parse_additive cv (Suc n) p = binary_level n [T_PLUS, T_MINUS] (parse_multiplicative cv n) p"
| "parse_multiplicative cv 0 p = None"
| "parse_multiplicative cv (Suc n) p =
     binary_level n [T_MULTIPLY, T_DIVIDE, T_MODULO] (parse_unary cv n) p"
| "parse_unary cv 0 p = None"
| "parse_unary cv (Suc n) p =
     (case current_token p of
        None \<Rightarrow> Some (Inl AttributeError)
      | Some t \<Rightarrow>
          (if tok_type t \<in> set [T_MINUS, T_LOGICAL_NOT]
             then (case parse_unary cv n (advance_p p) of
                     None \<Rightarrow> None
                   | Some (Inl e) \<Rightarrow> Some (Inl e)
                   | Some (Inr (operand, p1)) \<Rightarrow> Some (Inr (UnaryOp (tok_value t) operand, p1)))
           else parse_postfix cv n p))"
| "parse_postfix cv 0 p = None"
| "parse_postfix cv (Suc n) p =
     (case parse_primary cv n p of
        None \<Rightarrow> None
      | Some (Inl e) \<Rightarrow> Some (Inl e)
      | Some (Inr (expr, p1)) \<Rightarrow>
          (case current_token p1 of
             None \<Rightarrow> Some (Inl AttributeError)
           | Some t \<Rightarrow>
               (if tok_type t = T_LPAREN
                  then (case expr of
                          Identifier name \<Rightarrow>
                            (case current_token (advance_p p1) of
                               None \<Rightarrow> Some (Inl AttributeError)
                             | Some t2 \<Rightarrow>
                                 (case (if tok_type t2 \<noteq> T_RPAREN
                                          then (case parse_expression cv n (advance_p p1) of
                                                  None \<Rightarrow> None
                                                | Some (Inl e) \<Rightarrow> Some (Inl e)
                                                | Some (Inr (a, p3)) \<Rightarrow> parse_more_arguments cv n [a] p3)
                                        else Some (Inr ([], advance_p p1))) of
                                    None \<Rightarrow> None
                                  | Some (Inl e) \<Rightarrow> Some (Inl e)
                                  | Some (Inr (arguments, p4)) \<Rightarrow>
                                      (case expect T_RPAREN p4 of
                                         Inl e \<Rightarrow> Some (Inl e)
                                       | Inr (t5, p5) \<Rightarrow> Some (Inr (FunctionCall name arguments, p5)))))
                        | _ \<Rightarrow> Some (Inl (error_p ''Invalid function call'' p1)))
                else Some (Inr (expr, p1)))))"
| "parse_more_arguments cv 0 arguments p = None"
| "parse_more_arguments cv (Suc n) arguments p =
     (case current_token p of
        None \<Rightarrow> Some (Inl AttributeError)
      | Some t \<Rightarrow>
          (if tok_type t = T_COMMA
             then (case parse_expression cv n (advance_p p) of
                     None \<Rightarrow> None
                   | Some (Inl e) \<Rightarrow> Some (Inl e)
                   | Some (Inr (a, p1)) \<Rightarrow> parse_more_arguments cv n (arguments @ [a]) p1)
           else Some (Inr (arguments, p))))"
| "parse_primary cv 0 p = None"
| "parse_primary cv (Suc n) p =
     (case current_token p of
        None \<Rightarrow> Some (Inl AttributeError)
      | Some t \<Rightarrow>
          (if tok_type t = T_INTEGER_LITERAL
             then (case py_int cv (tok_value t) of
                     None \<Rightarrow> Some (Inl ValueError)
                   | Some v \<Rightarrow> Some (Inr (IntLiteral v, advance_p p)))
           else if tok_type t = T_FLOAT_LITERAL
             then (case py_float cv (tok_value t) of
                     None \<Rightarrow> Some (Inl ValueError)
                   | Some v \<Rightarrow> Some (Inr (FloatLiteral v, advance_p p)))
           else if tok_type t = T_STRING_LITERAL
             then Some (Inr (StringLiteral (tok_value t), advance_p p))
           else if tok_type t = T_IDENTIFIER
             then Some (Inr (Identifier (tok_value t), advance_p p))
           else if tok_type t = T_LPAREN
             then (case parse_expression cv n (advance_p p) of
                     None \<Rightarrow> None
                   | Some (Inl e) \<Rightarrow> Some (Inl e)
                   | Some (Inr (expr, p1)) \<Rightarrow>
                       (case expect T_RPAREN p1 of
                          Inl e \<Rightarrow> Some (Inl e)
                        | Inr (t1, p2) \<Rightarrow> Some (Inr (expr, p2))))
           else Some (Inl (error_p (''Unexpected token: '' @ type_name (tok_type t)) p))))"

section \<open>Semantic analysis (semantic_analyzer.py)\<close>

record Symbol =
  sym_name :: string
  sym_type :: string
  sym_scope :: string

text \<open>The symbol table: the stack of scope dictionaries (innermost last) and the label
  of the current scope.  The field \<open>declared\<close> is a history variable that is not in
  the source: it lists every \<open>Symbol\<close> object that \<open>SymbolTable.declare\<close> has built, in order of
  creation, so that the symbols of a frame stay observable after the frame is popped.
  No operation reads it.\<close>

record SymbolTable =
  scopes :: "(string \<rightharpoonup> Symbol) list"
  current_scope :: string
  declared :: "Symbol list"

datatype exn = SemanticError string | IndexError

definition new_symbol_table :: SymbolTable where
  "new_symbol_table = \<lparr>scopes = [Map.empty], current_scope = ''global'', declared = []\<rparr>"

definition enter_scope :: "string \<Rightarrow> SymbolTable \<Rightarrow> SymbolTable" where
  "enter_scope scope_name t = t\<lparr>scopes := scopes t @ [Map.empty], current_scope := scope_name\<rparr>"

definition exit_scope :: "SymbolTable \<Rightarrow> SymbolTable" where
  "exit_scope t =
     (if length (scopes t) > 1 then t\<lparr>scopes := butlast (scopes t), current_scope := ''outer''\<rparr>
      else t)"

text \<open>\<open>SymbolTable.declare\<close> (\<open>declare\<close> is a keyword here): \<open>self.scopes[-1]\<close> raises IndexError on an empty stack; a name already
  in the innermost frame raises SemanticError; otherwise the new \<open>Symbol\<close> takes the
  current scope label.\<close>

definition declare_symbol :: "string \<Rightarrow> string \<Rightarrow> SymbolTable \<Rightarrow> exn + SymbolTable" where
  "declare_symbol name symbol_type t =
     (if scopes t = [] then Inl IndexError
      else if last (scopes t) name \<noteq> None
        then Inl (SemanticError (''Variable '' @ [CHR 0x27] @ name @ [CHR 0x27] @ '' already declared in this scope''))
      else
        (let symbol = \<lparr>sym_name = name, sym_type = symbol_type, sym_scope = current_scope t\<rparr>
         in Inr (t\<lparr>scopes := butlast (scopes t) @ [(last (scopes t))(name \<mapsto> symbol)],
                   declared := declared t @ [symbol]\<rparr>)))"

fun lookup_frames :: "string \<Rightarrow> (string \<rightharpoonup> Symbol) list \<Rightarrow> Symbol option" where
  "lookup_frames name [] = None"
| "lookup_frames name (scope # rest) =
     (case scope name of Some symbol \<Rightarrow> Some symbol | None \<Rightarrow> lookup_frames name rest)"

definition lookup :: "string \<Rightarrow> SymbolTable \<Rightarrow> Symbol option" where
  "lookup name t = lookup_frames name (rev (scopes t))"

record SemanticAnalyzer =
  symbol_table :: SymbolTable
  current_function_return_type :: "string option"
  errors :: "string list"

definition new_analyzer :: SemanticAnalyzer where
  "new_analyzer = \<lparr>symbol_table = new_symbol_table, current_function_return_type = None, errors = []\<rparr>"

definition error_sem :: "string \<Rightarrow> SemanticAnalyzer \<Rightarrow> SemanticAnalyzer" where
  "error_sem message a = a\<lparr>errors := errors a @ [message]\<rparr>"

definition is_compatible_type :: "string \<Rightarrow> string \<Rightarrow> bool" where
  "is_compatible_type target_type source_type =
     (if target_type = source_type then True
      else if target_type \<in> set [''int'', ''float''] \<and> source_type \<in> set [''int'', ''float''] then True
      else if source_type = ''unknown'' then True
      else False)"

definition startswith :: "string \<Rightarrow> string \<Rightarrow> bool" where
  "startswith s prefix = (take (length prefix) s = prefix)"

text \<open>\<open>s.split(":", 1)[1]\<close> for a string that contains a colon: what follows the
  first colon.\<close>

definition after_first_colon :: "string \<Rightarrow> string" where
  "after_first_colon s = tl (dropWhile (\<lambda>c. c \<noteq> CHR '':'') s)"

text \<open>The expression visitor; it contains no \<open>raise\<close> and calls nothing that raises.
  \<open>visit_arguments_sem\<close> is the loop \<open>for arg in node.arguments\<close>.\<close>

fun visit_expression_sem :: "expr \<Rightarrow> SemanticAnalyzer \<Rightarrow> string \<times> SemanticAnalyzer"
  and visit_arguments_sem :: "expr list \<Rightarrow> SemanticAnalyzer \<Rightarrow> SemanticAnalyzer"
where
  "visit_expression_sem (IntLiteral v) a = (''int'', a)"
| "visit_expression_sem (FloatLiteral v) a = (''float'', a)"
| "visit_expression_sem (StringLiteral v) a = (''char*'', a)"
| "visit_expression_sem (Identifier name) a =
     (case lookup name (symbol_table a) of
        None \<Rightarrow> (''unknown'', error_sem (''Undefined variable: '' @ [CHR 0x27] @ name @ [CHR 0x27]) a)
      | Some symbol \<Rightarrow> (sym_type symbol, a))"
| "visit_expression_sem (BinaryOp operator left right) a =
     (let (left_type, a1) = visit_expression_sem left a;
          (right_type, a2) = visit_expression_sem right a1
      in if operator \<in> set [''&&'', ''||'', ''=='', ''!='', ''<'', ''>'', ''<='', ''>='']
           then (''int'', a2)
         else if operator \<in> set [''+'', ''-'', ''*'', ''/'', ''%'']
           then (if left_type = ''float'' \<or> right_type = ''float'' then (''float'', a2)
                 else (''int'', a2))
         else (''int'', a2))"
| "visit_expression_sem (UnaryOp operator operand) a =
     (let (operand_type, a1) = visit_expression_sem operand a
      in if operator = ''!'' then (''int'', a1)
         else if operator = ''-'' then (operand_type, a1)
         else (operand_type, a1))"
| "visit_expression_sem (Assignment target v) a =
     (case lookup target (symbol_table a) of
        None \<Rightarrow>
          (''unknown'',
           error_sem (''Assignment to undefined variable: '' @ [CHR 0x27] @ target @ [CHR 0x27]) a)
      | Some symbol \<Rightarrow>
          (let (value_type, a1) = visit_expression_sem v a
           in if \<not> is_compatible_type (sym_type symbol) value_type
                then (sym_type symbol,
                      error_sem (''Type mismatch in assignment to '' @ [CHR 0x27] @ target @ [CHR 0x27]
                                 @ '': cannot assign '' @ value_type @ '' to '' @ sym_type symbol) a1)
              else (sym_type symbol, a1)))"
| "visit_expression_sem (FunctionCall name arguments) a =
     (case lookup name (symbol_table a) of
        None \<Rightarrow>
          (''unknown'',
           error_sem (''Call to undefined function: '' @ [CHR 0x27] @ name @ [CHR 0x27]) a)
      | Some symbol \<Rightarrow>
          (if \<not> startswith (sym_type symbol) ''function:''
             then (''unknown'', error_sem ([CHR 0x27] @ name @ [CHR 0x27] @ '' is not a function'') a)
           else (after_first_colon (sym_type symbol), visit_arguments_sem arguments a)))"
| "visit_arguments_sem [] a = a"
| "visit_arguments_sem (arg # args) a = visit_arguments_sem args (snd (visit_expression_sem arg a))"

text \<open>How a visitor ends: it returns, or an exception leaves it; either way the
  analyzer object keeps the updates made so far.\<close>

datatype outcome = Returned SemanticAnalyzer | Raised exn SemanticAnalyzer

text \<open>The block \<open>try: self.symbol_table.declare(...) except SemanticError as e:
  self.error(str(e))\<close>, which three visitors share.  Only SemanticError is caught.\<close>

definition try_declare :: "string \<Rightarrow> string \<Rightarrow> SemanticAnalyzer \<Rightarrow> outcome" where
  "try_declare name symbol_type a =
     (case declare_symbol name symbol_type (symbol_table a) of
        Inr t \<Rightarrow> Returned (a\<lparr>symbol_table := t\<rparr>)
      | Inl (SemanticError message) \<Rightarrow> Returned (error_sem message a)
      | Inl IndexError \<Rightarrow> Raised IndexError a)"

definition visit_var_decl_sem :: "string \<Rightarrow> string \<Rightarrow> expr option \<Rightarrow> SemanticAnalyzer \<Rightarrow> outcome" where
  "visit_var_decl_sem var_type name initializer a =
     (case try_declare name var_type a of
        Raised x a1 \<Rightarrow> Raised x a1
      | Returned a1 \<Rightarrow>
          (case initializer of
             None \<Rightarrow> Returned a1
           | Some e \<Rightarrow>
               (let (init_type, a2) = visit_expression_sem e a1
                in if \<not> is_compatible_type var_type init_type
                     then Returned (error_sem (''Type mismatch in initialization of '' @ [CHR 0x27] @ name
                                      @ [CHR 0x27] @ '': cannot assign '' @ init_type @ '' to '' @ var_type) a2)
                   else Returned a2)))"

definition visit_return_stmt_sem :: "expr option \<Rightarrow> SemanticAnalyzer \<Rightarrow> SemanticAnalyzer" where
  "visit_return_stmt_sem expression a =
     (case current_function_return_type a of
        None \<Rightarrow> error_sem ''Return statement outside of function'' a
      | Some return_type \<Rightarrow>
          (case expression of
             Some e \<Rightarrow>
               (let (expr_type, a1) = visit_expression_sem e a
                in if \<not> is_compatible_type return_type expr_type
                     then error_sem (''Return type mismatch: expected '' @ return_type @ '', got '' @ expr_type) a1
                   else a1)
           | None \<Rightarrow>
               (if return_type \<noteq> ''void''
                  then error_sem (''Return statement must return a value of type '' @ return_type) a
                else a)))"

fun visit_statement_sem :: "stmt \<Rightarrow> SemanticAnalyzer \<Rightarrow> outcome"
  and visit_compound_stmt_sem :: "stmt list \<Rightarrow> SemanticAnalyzer \<Rightarrow> outcome"
where
  "visit_statement_sem (VarDecl var_type name initializer) a = visit_var_decl_sem var_type name initializer a"
| "visit_statement_sem (CompoundStmt statements) a =
     (case visit_compound_stmt_sem statements (a\<lparr>symbol_table := enter_scope ''block'' (symbol_table a)\<rparr>) of
        Raised x a1 \<Rightarrow> Raised x a1
      | Returned a1 \<Rightarrow> Returned (a1\<lparr>symbol_table := exit_scope (symbol_table a1)\<rparr>))"
| "visit_statement_sem (ExpressionStmt expression) a =
     (case expression of Some e \<Rightarrow> Returned (snd (visit_expression_sem e a)) | None \<Rightarrow> Returned a)"
| "visit_statement_sem (ReturnStmt expression) a = Returned (visit_return_stmt_sem expression a)"
| "visit_statement_sem (IfStmt condition then_stmt else_stmt) a =
     (case visit_statement_sem then_stmt (snd (visit_expression_sem condition a)) of
        Raised x a1 \<Rightarrow> Raised x a1
      | Returned a1 \<Rightarrow>
          (case else_stmt of Some els \<Rightarrow> visit_statement_sem els a1 | None \<Rightarrow> Returned a1))"
| "visit_statement_sem (WhileStmt condition body) a =
     visit_statement_sem body (snd (visit_expression_sem condition a))"
| "visit_statement_sem (ForStmt init condition update body) a =
     (case (case init of
              Some i \<Rightarrow> visit_statement_sem i (a\<lparr>symbol_table := enter_scope ''for'' (symbol_table a)\<rparr>)
            | None \<Rightarrow> Returned (a\<lparr>symbol_table := enter_scope ''for'' (symbol_table a)\<rparr>)) of
        Raised x a1 \<Rightarrow> Raised x a1
      | Returned a1 \<Rightarrow>
          (let a2 = (case condition of Some c \<Rightarrow> snd (visit_expression_sem c a1) | None \<Rightarrow> a1);
               a3 = (case update of Some u \<Rightarrow> snd (visit_expression_sem u a2) | None \<Rightarrow> a2)
           in case visit_statement_sem body a3 of
                Raised x a4 \<Rightarrow> Raised x a4
              | Returned a4 \<Rightarrow> Returned (a4\<lparr>symbol_table := exit_scope (symbol_table a4)\<rparr>)))"
| "visit_statement_sem (FunctionDecl return_type name parameters body) a = Returned a"
| "visit_compound_stmt_sem [] a = Returned a"
| "visit_compound_stmt_sem (s # ss) a =
     (case visit_statement_sem s a of
        Raised x a1 \<Rightarrow> Raised x a1
      | Returned a1 \<Rightarrow> visit_compound_stmt_sem ss a1)"

text \<open>The loop \<open>for param in node.parameters\<close> of \<open>visit_function_decl\<close>.\<close>

fun declare_parameters :: "Parameter list \<Rightarrow> SemanticAnalyzer \<Rightarrow> outcome" where
  "declare_parameters [] a = Returned a"
| "declare_parameters (param # params) a =
     (case try_declare (param_name param) (param_type param) a of
        Raised x a1 \<Rightarrow> Raised x a1
      | Returned a1 \<Rightarrow> declare_parameters params a1)"

definition visit_function_decl_sem ::
  "string \<Rightarrow> string \<Rightarrow> Parameter list \<Rightarrow> stmt list option \<Rightarrow> SemanticAnalyzer \<Rightarrow> outcome" where
  "visit_function_decl_sem return_type name parameters body a =
     (case try_declare name (''function:'' @ return_type) a of
        Raised x a1 \<Rightarrow> Raised x a1
      | Returned a1 \<Rightarrow>
          (case body of
             None \<Rightarrow> Returned a1
           | Some statements \<Rightarrow>
               (case declare_parameters parameters
                       (a1\<lparr>symbol_table := enter_scope (''function:'' @ name) (symbol_table a1),
                           current_function_return_type := Some return_type\<rparr>) of
                  Raised x a2 \<Rightarrow> Raised x a2
                | Returned a2 \<Rightarrow>
                    (case visit_compound_stmt_sem statements a2 of
                       Raised x a3 \<Rightarrow> Raised x a3
                     | Returned a3 \<Rightarrow>
                         Returned (a3\<lparr>symbol_table := exit_scope (symbol_table a3),
                                       current_function_return_type := None\<rparr>)))))"

fun visit_program_sem :: "stmt list \<Rightarrow> SemanticAnalyzer \<Rightarrow> outcome" where
  "visit_program_sem [] a = Returned a"
| "visit_program_sem (FunctionDecl return_type name parameters body # decls) a =
     (case visit_function_decl_sem return_type name parameters body a of
        Raised x a1 \<Rightarrow> Raised x a1
      | Returned a1 \<Rightarrow> visit_program_sem decls a1)"
| "visit_program_sem (VarDecl var_type name initializer # decls) a =
     (case visit_var_decl_sem var_type name initializer a of
        Raised x a1 \<Rightarrow> Raised x a1
      | Returned a1 \<Rightarrow> visit_program_sem decls a1)"
| "visit_program_sem (decl # decls) a = visit_program_sem decls a"

text \<open>\<open>analyze\<close>: the walk inside \<open>try ... except SemanticError\<close>, then the single
  \<open>raise SemanticError("Semantic analysis failed")\<close> when the error list is not empty.
  The printing of the list is left out.\<close>

definition analyze :: "stmt list \<Rightarrow> SemanticAnalyzer \<Rightarrow> outcome" where
  "analyze ast a =
     (case (case visit_program_sem ast a of
              Returned a1 \<Rightarrow> Returned a1
            | Raised (SemanticError message) a1 \<Rightarrow> Returned (error_sem message a1)
            | Raised IndexError a1 \<Rightarrow> Raised IndexError a1) of
        Raised x a2 \<Rightarrow> Raised x a2
      | Returned a2 \<Rightarrow>
          (if errors a2 \<noteq> [] then Raised (SemanticError ''Semantic analysis failed'') a2
           else Returned a2))"

section \<open>Three-address code (intermediate_code.py)\<close>

datatype TACInstruction =
    TACAssign string string
  | TACBinaryOp string string string string
  | TACUnaryOp string string string
  | TACLabel string
  | TACGoto string
  | TACIfGoto string string
  | TACIfFalseGoto string string
  | TACCall "string option" string nat
  | TACParam string
  | TACReturn "string option"
  | TACFunctionStart string
  | TACFunctionEnd string

text \<open>\<open>__str__\<close> of each instruction class.  Python tests \<open>if self.result\<close> and
  \<open>if self.value\<close>: both \<open>None\<close> and the empty string are false.\<close>

fun tac_str :: "TACInstruction \<Rightarrow> string" where
  "tac_str (TACAssign result arg1) = result @ '' = '' @ arg1"
| "tac_str (TACBinaryOp result arg1 op arg2) = result @ '' = '' @ arg1 @ '' '' @ op @ '' '' @ arg2"
| "tac_str (TACUnaryOp result op arg) = result @ '' = '' @ op @ '' '' @ arg"
| "tac_str (TACLabel label) = label @ '':''"
| "tac_str (TACGoto label) = ''goto '' @ label"
| "tac_str (TACIfGoto condition label) = ''if '' @ condition @ '' goto '' @ label"
| "tac_str (TACIfFalseGoto condition label) = ''ifFalse '' @ condition @ '' goto '' @ label"
| "tac_str (TACCall result function n_args) =
     (case result of
        Some r \<Rightarrow>
          (if r \<noteq> [] then r @ '' = call '' @ function @ '', '' @ str_nat n_args
           else ''call '' @ function @ '', '' @ str_nat n_args)
      | None \<Rightarrow> ''call '' @ function @ '', '' @ str_nat n_args)"
| "tac_str (TACParam arg) = ''param '' @ arg"
| "tac_str (TACReturn v) =
     (case v of
        Some x \<Rightarrow> (if x \<noteq> [] then ''return '' @ x else ''return'')
      | None \<Rightarrow> ''return'')"
| "tac_str (TACFunctionStart name) = ''function '' @ name @ '':''"
| "tac_str (TACFunctionEnd name) = ''end function '' @ name"

record IntermediateCodeGenerator =
  instructions :: "TACInstruction list"
  temp_counter :: nat
  label_counter :: nat

definition new_generator :: IntermediateCodeGenerator where
  "new_generator = \<lparr>instructions = [], temp_counter = 0, label_counter = 0\<rparr>"

definition new_temp :: "IntermediateCodeGenerator \<Rightarrow> string \<times> IntermediateCodeGenerator" where
  "new_temp g = (CHR ''t'' # str_nat (temp_counter g), g\<lparr>temp_counter := temp_counter g + 1\<rparr>)"

definition new_label :: "IntermediateCodeGenerator \<Rightarrow> string \<times> IntermediateCodeGenerator" where
  "new_label g = (CHR ''L'' # str_nat (label_counter g), g\<lparr>label_counter := label_counter g + 1\<rparr>)"

definition emit :: "TACInstruction \<Rightarrow> IntermediateCodeGenerator \<Rightarrow> IntermediateCodeGenerator" where
  "emit i g = g\<lparr>instructions := instructions g @ [i]\<rparr>"

text \<open>\<open>visit_expression\<close> with \<open>visit_binary_op\<close>, \<open>visit_unary_op\<close>, \<open>visit_assignment\<close>
  and \<open>visit_function_call\<close> inlined at their dispatch branch.  \<open>visit_params\<close> is the
  body of the loop \<open>for arg in reversed(node.arguments)\<close>, run over the list it is given.\<close>

function visit_expression :: "expr \<Rightarrow> IntermediateCodeGenerator \<Rightarrow> string \<times> IntermediateCodeGenerator"
  and visit_params :: "expr list \<Rightarrow> IntermediateCodeGenerator \<Rightarrow> IntermediateCodeGenerator"
where
  "visit_expression (IntLiteral v) g = (str_int v, g)"
| "visit_expression (FloatLiteral v) g = (v, g)"
| "visit_expression (StringLiteral v) g = (CHR 0x22 # v @ [CHR 0x22], g)"
| "visit_expression (Identifier name) g = (name, g)"
| "visit_expression (BinaryOp operator left right) g =
     (let (left_temp, g1) = visit_expression left g;
          (right_temp, g2) = visit_expression right g1;
          (result_temp, g3) = new_temp g2
      in (result_temp, emit (TACBinaryOp result_temp left_temp operator right_temp) g3))"
| "visit_expression (UnaryOp operator operand) g =
     (let (operand_temp, g1) = visit_expression operand g;
          (result_temp, g2) = new_temp g1
      in (result_temp, emit (TACUnaryOp result_temp operator operand_temp) g2))"
| "visit_expression (Assignment target v) g =
     (let (value_temp, g1) = visit_expression v g
      in (target, emit (TACAssign target value_temp) g1))"
| "visit_expression (FunctionCall name arguments) g =
     (let g1 = visit_params (rev arguments) g;
          (result_temp, g2) = new_temp g1
      in (result_temp, emit (TACCall (Some result_temp) name (length arguments)) g2))"
| "visit_params [] g = g"
| "visit_params (arg # args) g =
     (let (arg_temp, g1) = visit_expression arg g
      in visit_params args (emit (TACParam arg_temp) g1))"
  by pat_completeness auto
termination
proof -
  have size_list_rev: "size_list f (rev xs) = size_list f xs" for f :: "expr \<Rightarrow> nat" and xs
    by (induction xs) simp_all
  show ?thesis
    by (relation "measure (\<lambda>x. case x of Inl (e, g) \<Rightarrow> 2 * size e
                                       | Inr (es, g) \<Rightarrow> 2 * size_list size es + 1)")
       (auto simp: size_list_rev)
qed

text \<open>The statement visitors.  \<open>visit_statement\<close> is the \<open>isinstance\<close> chain with
  \<open>visit_var_decl\<close>, \<open>visit_return_stmt\<close>, \<open>visit_if_stmt\<close>, \<open>visit_while_stmt\<close> and
  \<open>visit_for_stmt\<close> inlined at their branch; a \<open>FunctionDecl\<close> matches no branch of the
  chain and is skipped.  \<open>visit_compound_stmt\<close> is the loop over \<open>node.statements\<close>.
  In \<open>visit_for_stmt\<close> both branches of the test on \<open>node.init\<close> end in the same code,
  since \<open>visit_statement\<close> sends a \<open>VarDecl\<close> to \<open>visit_var_decl\<close>.\<close>

definition visit_var_decl ::
  "string \<Rightarrow> expr option \<Rightarrow> IntermediateCodeGenerator \<Rightarrow> IntermediateCodeGenerator" where
  "visit_var_decl name initializer g =
     (case initializer of
        Some e \<Rightarrow> (let (temp, g1) = visit_expression e g in emit (TACAssign name temp) g1)
      | None \<Rightarrow> g)"

definition visit_return_stmt ::
  "expr option \<Rightarrow> IntermediateCodeGenerator \<Rightarrow> IntermediateCodeGenerator" where
  "visit_return_stmt expression g =
     (case expression of
        Some e \<Rightarrow> (let (temp, g1) = visit_expression e g in emit (TACReturn (Some temp)) g1)
      | None \<Rightarrow> emit (TACReturn None) g)"

fun visit_statement :: "stmt \<Rightarrow> IntermediateCodeGenerator \<Rightarrow> IntermediateCodeGenerator"
  and visit_compound_stmt :: "stmt list \<Rightarrow> IntermediateCodeGenerator \<Rightarrow> IntermediateCodeGenerator"
where
  "visit_statement (VarDecl var_type name initializer) g = visit_var_decl name initializer g"
| "visit_statement (CompoundStmt statements) g = visit_compound_stmt statements g"
| "visit_statement (ExpressionStmt expression) g =
     (case expression of Some e \<Rightarrow> snd (visit_expression e g) | None \<Rightarrow> g)"
| "visit_statement (ReturnStmt expression) g = visit_return_stmt expression g"
| "visit_statement (IfStmt condition then_stmt else_stmt) g =
     (let (condition_temp, g1) = visit_expression condition g
      in case else_stmt of
           Some els \<Rightarrow>
             (let (else_label, g2) = new_label g1;
                  (end_label, g3) = new_label g2;
                  g4 = emit (TACIfFalseGoto condition_temp else_label) g3;
                  g5 = visit_statement then_stmt g4;
                  g6 = emit (TACGoto end_label) g5;
                  g7 = emit (TACLabel else_label) g6;
                  g8 = visit_statement els g7
              in emit (TACLabel end_label) g8)
         | None \<Rightarrow>
             (let (end_label, g2) = new_label g1;
                  g3 = emit (TACIfFalseGoto condition_temp end_label) g2;
                  g4 = visit_statement then_stmt g3
              in emit (TACLabel end_label) g4))"
| "visit_statement (WhileStmt condition body) g =
     (let (start_label, g1) = new_label g;
          (end_label, g2) = new_label g1;
          g3 = emit (TACLabel start_label) g2;
          (condition_temp, g4) = visit_expression condition g3;
          g5 = emit (TACIfFalseGoto condition_temp end_label) g4;
          g6 = visit_statement body g5;
          g7 = emit (TACGoto start_label) g6
      in emit (TACLabel end_label) g7)"
| "visit_statement (ForStmt init condition update body) g =
     (let g1 = (case init of Some i \<Rightarrow> visit_statement i g | None \<Rightarrow> g);
          (start_label, g2) = new_label g1;
          (end_label, g3) = new_label g2;
          (update_label, g4) = new_label g3;
          g5 = emit (TACLabel start_label) g4;
          g6 = (case condition of
                  Some c \<Rightarrow>
                    (let (condition_temp, h) = visit_expression c g5
                     in emit (TACIfFalseGoto condition_temp end_label) h)
                | None \<Rightarrow> g5);
          g7 = visit_statement body g6;
          g8 = emit (TACLabel update_label) g7;
          g9 = (case update of Some u \<Rightarrow> snd (visit_expression u g8) | None \<Rightarrow> g8);
          g10 = emit (TACGoto start_label) g9
      in emit (TACLabel end_label) g10)"
| "visit_statement (FunctionDecl return_type name parameters body) g = g"
| "visit_compound_stmt [] g = g"
| "visit_compound_stmt (s # ss) g = visit_compound_stmt ss (visit_statement s g)"

definition visit_function_decl ::
  "string \<Rightarrow> stmt list option \<Rightarrow> IntermediateCodeGenerator \<Rightarrow> IntermediateCodeGenerator" where
  "visit_function_decl name body g =
     (case body of
        Some statements \<Rightarrow>
          emit (TACFunctionEnd name) (visit_compound_stmt statements (emit (TACFunctionStart name) g))
      | None \<Rightarrow> g)"

text \<open>\<open>visit_program\<close>: the loop over \<open>node.declarations\<close>; a node that is neither a
  \<open>FunctionDecl\<close> nor a \<open>VarDecl\<close> is passed over.\<close>

fun visit_program :: "stmt list \<Rightarrow> IntermediateCodeGenerator \<Rightarrow> IntermediateCodeGenerator" where
  "visit_program [] g = g"
| "visit_program (FunctionDecl return_type name parameters body # decls) g =
     visit_program decls (visit_function_decl name body g)"
| "visit_program (VarDecl var_type name initializer # decls) g =
     visit_program decls (visit_var_decl name initializer g)"
| "visit_program (decl # decls) g = visit_program decls g"

definition generate :: "stmt list \<Rightarrow> TACInstruction list" where
  "generate ast = instructions (visit_program ast new_generator)"

section \<open>Code generation and peephole pass (code_generator.py)\<close>

text \<open>
  Strings stand for Python \<open>str\<close> values with one \<open>char\<close> per code point, which covers
  the code points below 256.  The string methods used by the code generator:
  \<open>s.endswith(suffix)\<close>, \<open>sub in s\<close>, \<open>s.rstrip(',')\<close> and \<open>s.split()\<close>, which cuts at
  runs of the characters for which \<open>str.isspace\<close> holds and drops empty pieces.
\<close>

definition endswith :: "string \<Rightarrow> string \<Rightarrow> bool" where
  "endswith s suffix = (length suffix \<le> length s \<and> drop (length s - length suffix) s = suffix)"

fun contains :: "string \<Rightarrow> string \<Rightarrow> bool" where
  "contains sub [] = (sub = [])"
| "contains sub (c # cs) = (startswith (c # cs) sub \<or> contains sub cs)"

definition rstrip_comma :: "string \<Rightarrow> string" where
  "rstrip_comma s = rev (dropWhile (\<lambda>c. c = CHR '','') (rev s))"

definition isspace :: "char \<Rightarrow> bool" where
  "isspace c = ((of_char c :: nat) \<in> set [9, 10, 11, 12, 13, 28, 29, 30, 31, 32, 133, 160])"

fun split_from :: "string \<Rightarrow> string \<Rightarrow> string list" where
  "split_from word [] = (if word = [] then [] else [word])"
| "split_from word (c # cs) =
     (if isspace c then (if word = [] then split_from [] cs else word # split_from [] cs)
      else split_from (word @ [c]) cs)"

definition split :: "string \<Rightarrow> string list" where
  "split s = split_from [] s"

record CodeGenerator =
  assembly_code :: "string list"
  register_counter :: nat
  var_to_register :: "string \<rightharpoonup> string"

definition new_code_generator :: CodeGenerator where
  "new_code_generator = \<lparr>assembly_code = [], register_counter = 0, var_to_register = Map.empty\<rparr>"

definition append_line :: "string \<Rightarrow> CodeGenerator \<Rightarrow> CodeGenerator" where
  "append_line asm_line cg = cg\<lparr>assembly_code := assembly_code cg @ [asm_line]\<rparr>"

definition allocate_register :: "string \<Rightarrow> CodeGenerator \<Rightarrow> string \<times> CodeGenerator" where
  "allocate_register var cg =
     (case var_to_register cg var of
        Some reg \<Rightarrow> (reg, cg)
      | None \<Rightarrow>
          (let reg = CHR ''R'' # str_nat (register_counter cg)
           in (reg, cg\<lparr>register_counter := register_counter cg + 1,
                        var_to_register := (var_to_register cg)(var \<mapsto> reg)\<rparr>)))"

text \<open>\<open>is_constant\<close> tries Python's \<open>float(value)\<close>, which is not code of this repository:
  \<open>float_ok\<close> says for which strings the conversion succeeds, and every statement about the
  code generator holds for any such predicate.\<close>

definition is_constant :: "(string \<Rightarrow> bool) \<Rightarrow> string \<Rightarrow> bool" where
  "is_constant float_ok v =
     (if float_ok v then True
      else startswith v [CHR 0x22] \<and> endswith v [CHR 0x22])"

definition op_map :: "(string \<times> string) list" where
  "op_map =
     [(''+'', ''ADD''), (''-'', ''SUB''), (''*'', ''MUL''), (''/'', ''DIV''), (''%'', ''MOD''),
      (''=='', ''CMP_EQ''), (''!='', ''CMP_NE''), (''<'', ''CMP_LT''), (''>'', ''CMP_GT''),
      (''<='', ''CMP_LE''), (''>='', ''CMP_GE''), (''&&'', ''AND''), (''||'', ''OR'')]"

fun generate_instruction :: "(string \<Rightarrow> bool) \<Rightarrow> TACInstruction \<Rightarrow> CodeGenerator \<Rightarrow> CodeGenerator" where
  "generate_instruction float_ok (TACFunctionStart name) cg =
     append_line ''    MOV BP, SP''
       (append_line ''    PUSH BP''
         (append_line (name @ '':'')
           (append_line (CHR 0x0A # ''; Function: '' @ name) cg)))"
| "generate_instruction float_ok (TACFunctionEnd name) cg =
     append_line (''; End of '' @ name)
       (append_line ''    RET''
         (append_line ''    POP BP''
           (append_line ''    MOV SP, BP'' cg)))"
| "generate_instruction float_ok (TACAssign result arg1) cg =
     (let (result_reg, cg1) = allocate_register result cg
      in if is_constant float_ok arg1
           then append_line (''    LOAD '' @ result_reg @ '', #'' @ arg1) cg1
         else
           (let (arg_reg, cg2) = allocate_register arg1 cg1
            in append_line (''    MOV '' @ result_reg @ '', '' @ arg_reg) cg2))"
| "generate_instruction float_ok (TACBinaryOp result arg1 op arg2) cg =
     (let (result_reg, cg1) = allocate_register result cg;
          (arg1_reg, cg2) =
            (if is_constant float_ok arg1
               then (result_reg, append_line (''    LOAD '' @ result_reg @ '', #'' @ arg1) cg1)
             else allocate_register arg1 cg1);
          (arg2_val, cg3) =
            (if is_constant float_ok arg2 then (CHR ''#'' # arg2, cg2)
             else allocate_register arg2 cg2);
          op_code = (case map_of op_map op of Some code \<Rightarrow> code | None \<Rightarrow> ''OP'')
      in if op \<in> set [''=='', ''!='', ''<'', ''>'', ''<='', ''>='']
           then append_line (''    '' @ op_code @ '' '' @ result_reg)
                  (append_line (''    CMP '' @ arg1_reg @ '', '' @ arg2_val) cg3)
         else
           append_line (''    '' @ op_code @ '' '' @ result_reg @ '', '' @ arg2_val)
             (if arg1_reg \<noteq> result_reg
                then append_line (''    MOV '' @ result_reg @ '', '' @ arg1_reg) cg3
              else cg3))"
| "generate_instruction float_ok (TACUnaryOp result op arg) cg =
     (let (result_reg, cg1) = allocate_register result cg;
          (arg_reg, cg2) = allocate_register arg cg1
      in if op = ''-'' then append_line (''    NEG '' @ result_reg @ '', '' @ arg_reg) cg2
         else if op = ''!'' then append_line (''    NOT '' @ result_reg @ '', '' @ arg_reg) cg2
         else cg2)"
| "generate_instruction float_ok (TACLabel label) cg = append_line (label @ '':'') cg"
| "generate_instruction float_ok (TACGoto label) cg = append_line (''    JMP '' @ label) cg"
| "generate_instruction float_ok (TACIfGoto condition label) cg =
     (let (cond_reg, cg1) = allocate_register condition cg
      in append_line (''    JNE '' @ label) (append_line (''    CMP '' @ cond_reg @ '', #0'') cg1))"
| "generate_instruction float_ok (TACIfFalseGoto condition label) cg =
     (let (cond_reg, cg1) = allocate_register condition cg
      in append_line (''    JE '' @ label) (append_line (''    CMP '' @ cond_reg @ '', #0'') cg1))"
| "generate_instruction float_ok (TACParam arg) cg =
     (if is_constant float_ok arg then append_line (''    PUSH #'' @ arg) cg
      else
        (let (arg_reg, cg1) = allocate_register arg cg
         in append_line (''    PUSH '' @ arg_reg) cg1))"
| "generate_instruction float_ok (TACCall result function n_args) cg =
     (let cg1 = append_line (''    CALL '' @ function) cg;
          cg2 = (if n_args > 0 then append_line (''    ADD SP, #'' @ str_nat (n_args * 4)) cg1 else cg1)
      in case result of
           Some r \<Rightarrow>
             (if r \<noteq> []
                then (let (result_reg, cg3) = allocate_register r cg2
                      in append_line (''    MOV '' @ result_reg @ '', RAX'') cg3)
              else cg2)
         | None \<Rightarrow> cg2)"
| "generate_instruction float_ok (TACReturn v) cg =
     (case v of
        Some x \<Rightarrow>
          (if x \<noteq> []
             then (if is_constant float_ok x then append_line (''    LOAD RAX, #'' @ x) cg
                   else
                     (let (value_reg, cg1) = allocate_register x cg
                      in append_line (''    MOV RAX, '' @ value_reg) cg1))
           else cg)
      | None \<Rightarrow> cg)"

text \<open>\<open>CodeGenerator.generate\<close>: the three banner lines, then every TAC instruction in
  order.\<close>

fun generate_instructions :: "(string \<Rightarrow> bool) \<Rightarrow> TACInstruction list \<Rightarrow> CodeGenerator \<Rightarrow> CodeGenerator" where
  "generate_instructions float_ok [] cg = cg"
| "generate_instructions float_ok (instruction # rest) cg =
     generate_instructions float_ok rest (generate_instruction float_ok instruction cg)"

definition generate_asm :: "(string \<Rightarrow> bool) \<Rightarrow> TACInstruction list \<Rightarrow> CodeGenerator" where
  "generate_asm float_ok tac_instructions =
     generate_instructions float_ok tac_instructions
       (append_line ''''
         (append_line ''; Simplified RISC-style instructions''
           (append_line ''; Generated Assembly Code'' new_code_generator)))"

text \<open>\<open>optimize\<close>.  The test of the first pattern: the line contains the text \<open>MOV\<close>, it
  splits into at least three parts, and the second part without trailing commas equals the
  third.  \<open>optimize_loop\<close> is the \<open>while\<close> loop with \<open>optimized_code\<close> and
  \<open>optimizations_made\<close> as accumulators (the loop variable \<open>line\<close> is \<open>asm_line\<close> here).  The second pattern of the loop (\<open>LOAD\<close> followed by
  \<open>MOV\<close>) only executes \<open>pass\<close> and is left out, as are the prints.\<close>

definition redundant_move :: "string \<Rightarrow> bool" where
  "redundant_move asm_line =
     (contains ''MOV'' asm_line \<and>
      (let parts = split asm_line
       in length parts \<ge> 3 \<and> rstrip_comma (parts ! 1) = parts ! 2))"

fun optimize_loop :: "string list \<Rightarrow> string list \<Rightarrow> nat \<Rightarrow> string list \<times> nat" where
  "optimize_loop [] optimized_code optimizations_made = (optimized_code, optimizations_made)"
| "optimize_loop (asm_line # rest) optimized_code optimizations_made =
     (if redundant_move asm_line then optimize_loop rest optimized_code (optimizations_made + 1)
      else optimize_loop rest (optimized_code @ [asm_line]) optimizations_made)"

definition optimize :: "CodeGenerator \<Rightarrow> CodeGenerator \<times> nat" where
  "optimize cg =
     (let (optimized_code, optimizations_made) = optimize_loop (assembly_code cg) [] 0
      in (cg\<lparr>assembly_code := optimized_code\<rparr>, optimizations_made))"

section \<open>Notions used to state the properties of the IR generator\<close>

text \<open>The result fields that come from \<open>new_temp\<close>: every \<open>TACBinaryOp\<close>, \<open>TACUnaryOp\<close>
  and \<open>TACCall\<close> is emitted with the temporary allocated just before it.  \<open>temp_names a b\<close>
  are the names \<open>t\<^sub>a \<dots> t\<^sub>b\<^sub>-\<^sub>1\<close> in counter order.\<close>

fun fresh_temps :: "TACInstruction list \<Rightarrow> string list" where
  "fresh_temps [] = []"
| "fresh_temps (TACBinaryOp r a1 op a2 # is) = r # fresh_temps is"
| "fresh_temps (TACUnaryOp r op a # is) = r # fresh_temps is"
| "fresh_temps (TACCall (Some r) f n # is) = r # fresh_temps is"
| "fresh_temps (i # is) = fresh_temps is"

definition temp_names :: "nat \<Rightarrow> nat \<Rightarrow> string list" where
  "temp_names a b = map (\<lambda>k. CHR ''t'' # str_nat k) [a..<b]"

text \<open>The labels that the list defines (its \<open>TACLabel\<close> instructions), and the names
  \<open>L\<^sub>a \<dots> L\<^sub>b\<^sub>-\<^sub>1\<close>.\<close>

fun label_defs :: "TACInstruction list \<Rightarrow> string list" where
  "label_defs [] = []"
| "label_defs (TACLabel l # is) = l # label_defs is"
| "label_defs (i # is) = label_defs is"

definition label_names :: "nat \<Rightarrow> nat \<Rightarrow> string list" where
  "label_names a b = map (\<lambda>k. CHR ''L'' # str_nat k) [a..<b]"

text \<open>A call instruction carries a result.\<close>

fun call_ok :: "TACInstruction \<Rightarrow> bool" where
  "call_ok (TACCall r f n) = (r \<noteq> None)"
| "call_ok i = True"

definition temps_of :: "IntermediateCodeGenerator \<Rightarrow> string list" where
  "temps_of g = fresh_temps (instructions g)"

definition labels_of :: "IntermediateCodeGenerator \<Rightarrow> string multiset" where
  "labels_of g = mset (label_defs (instructions g))"

definition label_mset :: "nat \<Rightarrow> nat \<Rightarrow> string multiset" where
  "label_mset a b = mset (label_names a b)"

definition calls_ok :: "IntermediateCodeGenerator \<Rightarrow> bool" where
  "calls_ok g = list_all call_ok (instructions g)"

text \<open>What one expression visit does to the generator: temporaries are allocated in
  counter order and emitted at once, no label is touched, the old instructions stay a prefix.
  \<open>grows\<close> is the same for statements, where the label counter may move; \<open>labels_step\<close>
  says that the labels defined in between are exactly those allocated in between.\<close>

definition expr_step :: "IntermediateCodeGenerator \<Rightarrow> IntermediateCodeGenerator \<Rightarrow> bool" where
  "expr_step g g' \<longleftrightarrow>
     temp_counter g \<le> temp_counter g' \<and> label_counter g' = label_counter g \<and>
     temps_of g' = temps_of g @ temp_names (temp_counter g) (temp_counter g') \<and>
     labels_of g' = labels_of g \<and>
     (calls_ok g \<longrightarrow> calls_ok g') \<and>
     (\<exists>ys. instructions g' = instructions g @ ys)"

definition grows :: "IntermediateCodeGenerator \<Rightarrow> IntermediateCodeGenerator \<Rightarrow> bool" where
  "grows g g' \<longleftrightarrow>
     temp_counter g \<le> temp_counter g' \<and> label_counter g \<le> label_counter g' \<and>
     temps_of g' = temps_of g @ temp_names (temp_counter g) (temp_counter g') \<and>
     (calls_ok g \<longrightarrow> calls_ok g') \<and>
     (\<exists>ys. instructions g' = instructions g @ ys)"

definition labels_step :: "IntermediateCodeGenerator \<Rightarrow> IntermediateCodeGenerator \<Rightarrow> bool" where
  "labels_step g g' \<longleftrightarrow>
     label_counter g \<le> label_counter g' \<and>
     labels_of g' = labels_of g + label_mset (label_counter g) (label_counter g')"

text \<open>The instructions that lowering \<open>e\<close> appends when started in \<open>g\<close>, and the emitted
  form of a call's arguments as the specification words it: for each argument of the given
  list in turn, its lowering and then its \<open>param\<close>.\<close>

definition expr_code :: "expr \<Rightarrow> IntermediateCodeGenerator \<Rightarrow> TACInstruction list" where
  "expr_code e g = drop (length (instructions g)) (instructions (snd (visit_expression e g)))"

fun param_blocks :: "expr list \<Rightarrow> IntermediateCodeGenerator \<Rightarrow> TACInstruction list" where
  "param_blocks [] g = []"
| "param_blocks (arg # args) g =
     expr_code arg g @ [TACParam (fst (visit_expression arg g))] @
     param_blocks args (emit (TACParam (fst (visit_expression arg g))) (snd (visit_expression arg g)))"

text \<open>A variable declaration without initializer.\<close>

fun is_uninitialized_var :: "stmt \<Rightarrow> bool" where
  "is_uninitialized_var (VarDecl var_type name None) = True"
| "is_uninitialized_var d = False"

section \<open>Notions used to state the properties of the semantic analyzer\<close>

text \<open>The analyzer object as an outcome leaves it.\<close>

definition final :: "outcome \<Rightarrow> SemanticAnalyzer" where
  "final out = (case out of Returned a \<Rightarrow> a | Raised x a \<Rightarrow> a)"

text \<open>An expression visit only appends to the error list.\<close>

definition expr_keeps :: "SemanticAnalyzer \<Rightarrow> SemanticAnalyzer \<Rightarrow> bool" where
  "expr_keeps a a' \<longleftrightarrow>
     symbol_table a' = symbol_table a \<and>
     current_function_return_type a' = current_function_return_type a \<and>
     (\<exists>es. errors a' = errors a @ es)"

text \<open>The scope labels that the code attaches to symbols: those of the specification
  and \<open>outer\<close>, which \<open>exit_scope\<close> installs.  \<open>label_inv\<close>: the current label and the label
  of every symbol built so far are of this kind, and every symbol held in a frame is in the
  history.\<close>

definition scope_label_ok :: "string \<Rightarrow> bool" where
  "scope_label_ok l \<longleftrightarrow>
     l = ''global'' \<or> startswith l ''function:'' \<or> l = ''for'' \<or> l = ''block'' \<or> l = ''outer''"

definition label_inv :: "SymbolTable \<Rightarrow> bool" where
  "label_inv t \<longleftrightarrow>
     scope_label_ok (current_scope t) \<and>
     list_all (\<lambda>s. scope_label_ok (sym_scope s)) (declared t) \<and>
     (\<forall>frame \<in> set (scopes t). ran frame \<subseteq> set (declared t))"

text \<open>What a visit does to the analyzer when it is started with a non-empty stack: it
  returns, with as many frames as before, keeping \<open>label_inv\<close> and the errors recorded.\<close>

definition walk_step :: "SemanticAnalyzer \<Rightarrow> SemanticAnalyzer \<Rightarrow> bool" where
  "walk_step a a' \<longleftrightarrow>
     length (scopes (symbol_table a')) = length (scopes (symbol_table a)) \<and>
     (label_inv (symbol_table a) \<longrightarrow> label_inv (symbol_table a')) \<and>
     (\<exists>es. errors a' = errors a @ es)"

definition walks :: "SemanticAnalyzer \<Rightarrow> outcome \<Rightarrow> bool" where
  "walks a out \<longleftrightarrow> (\<exists>a'. out = Returned a' \<and> walk_step a a')"

text \<open>Modelled from the specification's words, for comparison with the code: "Scope
  labels: global, function:<name>, for, block".\<close>

definition spec_scope_label :: "string \<Rightarrow> bool" where
  "spec_scope_label l \<longleftrightarrow> l = ''global'' \<or> startswith l ''function:'' \<or> l = ''for'' \<or> l = ''block''"

section \<open>Notions used to state the properties of the scanner\<close>




section \<open>A program for the peephole pass\<close>

text \<open>The program \<^verbatim>\<open>int f(char s); void main() { f("MOV #\"MOV x"); }\<close>: one call
  with a string literal whose text is \<^verbatim>\<open>MOV #"MOV x\<close>.\<close>

definition push_program :: "stmt list" where
  "push_program =
     [FunctionDecl ''int'' ''f'' [\<lparr>param_type = ''char'', param_name = ''s''\<rparr>] None,
      FunctionDecl ''void'' ''main'' []
        (Some [ExpressionStmt (Some (FunctionCall ''f'' [StringLiteral (''MOV #'' @ [CHR 0x22] @ ''MOV x'')]))])]"

section \<open>Inputs for the assignment rule of the parser\<close>

text \<open>Conversions that accept no literal, and the token lists of \<^verbatim>\<open>x = y\<close> and of
  \<^verbatim>\<open>f() = y\<close>, each ending with \<open>EOF\<close>.\<close>

definition no_literals :: Conversions where
  "no_literals = \<lparr>py_int = (\<lambda>s. None), py_float = (\<lambda>s. None)\<rparr>"

definition tokens_x_assign_y :: "Token list" where
  "tokens_x_assign_y =
     [\<lparr>tok_type = T_IDENTIFIER, tok_value = ''x'', tok_line = 1, tok_column = 1\<rparr>,
      \<lparr>tok_type = T_ASSIGN, tok_value = ''='', tok_line = 1, tok_column = 3\<rparr>,
      \<lparr>tok_type = T_IDENTIFIER, tok_value = ''y'', tok_line = 1, tok_column = 5\<rparr>,
      \<lparr>tok_type = T_EOF, tok_value = [], tok_line = 1, tok_column = 6\<rparr>]"

definition tokens_call_assign_y :: "Token list" where
  "tokens_call_assign_y =
     [\<lparr>tok_type = T_IDENTIFIER, tok_value = ''f'', tok_line = 1, tok_column = 1\<rparr>,
      \<lparr>tok_type = T_LPAREN, tok_value = ''('', tok_line = 1, tok_column = 2\<rparr>,
      \<lparr>tok_type = T_RPAREN, tok_value = '')'', tok_line = 1, tok_column = 3\<rparr>,
      \<lparr>tok_type = T_ASSIGN, tok_value = ''='', tok_line = 1, tok_column = 5\<rparr>,
      \<lparr>tok_type = T_IDENTIFIER, tok_value = ''y'', tok_line = 1, tok_column = 7\<rparr>,
      \<lparr>tok_type = T_EOF, tok_value = [], tok_line = 1, tok_column = 8\<rparr>]"

section \<open>The IR generator: fresh names, calls, declarations\<close>

subsection \<open>Decimal rendering is injective\<close>

lemma digit_char_inj: "a < 10 \<Longrightarrow> b < 10 \<Longrightarrow> digit_char a = digit_char b \<Longrightarrow> a = b"
proof -
  have code: "of_char (digit_char d) = 48 + d" if "d < 10" for d
  proof -
    from that have "d = 0 \<or> d = 1 \<or> d = 2 \<or> d = 3 \<or> d = 4 \<or> d = 5 \<or> d = 6 \<or> d = 7 \<or> d = 8 \<or> d = 9"
      by arith
    then show ?thesis by (elim disjE) (simp_all add: digit_char_def)
  qed
  assume "a < 10" "b < 10" "digit_char a = digit_char b"
  then have "48 + a = 48 + b" using code[of a] code[of b] by metis
  then show "a = b" by (rule add_left_imp_eq)
qed

lemma str_nat_nonempty: "str_nat n \<noteq> []"
  by (subst str_nat.simps) simp

lemma str_nat_inj: "str_nat a = str_nat b \<Longrightarrow> a = b"
proof (induction a arbitrary: b rule: str_nat.induct)
  case (1 n)
  show ?case
  proof (cases "n < 10")
    case True
    then have n: "str_nat n = [digit_char n]" by (subst str_nat.simps) simp
    show ?thesis
    proof (cases "b < 10")
      case True
      then have "str_nat b = [digit_char b]" by (subst str_nat.simps) simp
      with n 1(2) have "digit_char n = digit_char b" by simp
      with \<open>n < 10\<close> \<open>b < 10\<close> show ?thesis by (intro digit_char_inj)
    next
      case False
      then have "str_nat b = str_nat (b div 10) @ [digit_char (b mod 10)]" by (subst str_nat.simps) simp
      with n 1(2) have "str_nat (b div 10) = []" by simp
      then show ?thesis using str_nat_nonempty by blast
    qed
  next
    case False
    then have n: "str_nat n = str_nat (n div 10) @ [digit_char (n mod 10)]" by (subst str_nat.simps) simp
    show ?thesis
    proof (cases "b < 10")
      case True
      then have "str_nat b = [digit_char b]" by (subst str_nat.simps) simp
      with n 1(2) have "str_nat (n div 10) = []" by simp
      then show ?thesis using str_nat_nonempty by blast
    next
      case b: False
      then have "str_nat b = str_nat (b div 10) @ [digit_char (b mod 10)]" by (subst str_nat.simps) simp
      with n 1(2) have eq: "str_nat (n div 10) = str_nat (b div 10)" "digit_char (n mod 10) = digit_char (b mod 10)" by simp_all
      from 1(1)[OF False eq(1)] have "n div 10 = b div 10" .
      moreover from eq(2) have "n mod 10 = b mod 10" by (intro digit_char_inj) simp_all
      ultimately show ?thesis by (metis div_mult_mod_eq)
    qed
  qed
qed

lemma instructions_emit [simp]: "instructions (emit i g) = instructions g @ [i]"
  and temp_counter_emit [simp]: "temp_counter (emit i g) = temp_counter g"
  and label_counter_emit [simp]: "label_counter (emit i g) = label_counter g"
  by (simp_all add: emit_def)

lemma new_temp_simps [simp]:
  "fst (new_temp g) = CHR ''t'' # str_nat (temp_counter g)"
  "instructions (snd (new_temp g)) = instructions g"
  "temp_counter (snd (new_temp g)) = Suc (temp_counter g)"
  "label_counter (snd (new_temp g)) = label_counter g"
  by (simp_all add: new_temp_def)

lemma new_label_simps [simp]:
  "fst (new_label g) = CHR ''L'' # str_nat (label_counter g)"
  "instructions (snd (new_label g)) = instructions g"
  "temp_counter (snd (new_label g)) = temp_counter g"
  "label_counter (snd (new_label g)) = Suc (label_counter g)"
  by (simp_all add: new_label_def)

lemma fresh_temps_append [simp]: "fresh_temps (xs @ ys) = fresh_temps xs @ fresh_temps ys"
  by (induction xs rule: fresh_temps.induct) simp_all

lemma temp_names_refl [simp]: "temp_names a a = []" by (simp add: temp_names_def)

lemma temp_names_Suc: "a \<le> b \<Longrightarrow> temp_names a (Suc b) = temp_names a b @ [CHR ''t'' # str_nat b]"
  by (simp add: temp_names_def)

lemma temp_names_trans: "a \<le> b \<Longrightarrow> b \<le> c \<Longrightarrow> temp_names a b @ temp_names b c = temp_names a c"
  unfolding temp_names_def by (metis map_append upt_add_eq_append le_Suc_ex)

lemma label_defs_append [simp]: "label_defs (xs @ ys) = label_defs xs @ label_defs ys"
  by (induction xs rule: label_defs.induct) simp_all

lemma label_names_refl [simp]: "label_names a a = []" by (simp add: label_names_def)

lemma label_names_Suc: "a \<le> b \<Longrightarrow> label_names a (Suc b) = label_names a b @ [CHR ''L'' # str_nat b]"
  by (simp add: label_names_def)

lemma label_names_trans: "a \<le> b \<Longrightarrow> b \<le> c \<Longrightarrow> label_names a b @ label_names b c = label_names a c"
  unfolding label_names_def by (metis map_append upt_add_eq_append le_Suc_ex)

lemma label_names_Cons: "a < b \<Longrightarrow> label_names a b = (CHR ''L'' # str_nat a) # label_names (Suc a) b"
  by (simp add: label_names_def upt_conv_Cons)

lemma expr_step_refl: "expr_step g g"
  by (simp add: expr_step_def)

lemma expr_step_trans: "expr_step g g1 \<Longrightarrow> expr_step g1 g2 \<Longrightarrow> expr_step g g2"
  unfolding expr_step_def
  by (auto simp: temp_names_trans)

lemma expr_step_emit:
  "fresh_temps [i] = [] \<Longrightarrow> label_defs [i] = [] \<Longrightarrow> call_ok i \<Longrightarrow> expr_step g (emit i g)"
  by (simp add: expr_step_def temps_of_def labels_of_def calls_ok_def)

lemma expr_step_temp:
  "new_temp g = (t, g1) \<Longrightarrow> fresh_temps [i] = [t] \<Longrightarrow> label_defs [i] = [] \<Longrightarrow> call_ok i
   \<Longrightarrow> expr_step g (emit i g1)"
  by (auto simp: expr_step_def temps_of_def labels_of_def calls_ok_def new_temp_def temp_names_Suc)

lemma visit_expression_step:
  "visit_expression e g = (v, g') \<Longrightarrow> expr_step g g'"
  "visit_params es g = g'' \<Longrightarrow> expr_step g g''"
proof (induction e g and es g arbitrary: v g' and g'' rule: visit_expression_visit_params.induct)
  case (5 operator left right g)
  obtain lt g1 where l: "visit_expression left g = (lt, g1)" by fastforce
  obtain rt g2 where r: "visit_expression right g1 = (rt, g2)" by fastforce
  obtain t g3 where t: "new_temp g2 = (t, g3)" by fastforce
  have "expr_step g g1" using 5(1) l by simp
  moreover have "expr_step g1 g2" using 5(2)[OF refl l[symmetric]] r by simp
  moreover have "expr_step g2 (emit (TACBinaryOp t lt operator rt) g3)"
    using t by (rule expr_step_temp) simp_all
  moreover have "g' = emit (TACBinaryOp t lt operator rt) g3" using 5(3) l r t by auto
  ultimately show ?case by (metis expr_step_trans)
next
  case (6 operator operand g)
  obtain ot g1 where l: "visit_expression operand g = (ot, g1)" by fastforce
  obtain t g2 where t: "new_temp g1 = (t, g2)" by fastforce
  have "expr_step g g1" using 6(1) l by simp
  moreover have "expr_step g1 (emit (TACUnaryOp t operator ot) g2)"
    using t by (rule expr_step_temp) simp_all
  moreover have "g' = emit (TACUnaryOp t operator ot) g2" using 6(2) l t by auto
  ultimately show ?case by (metis expr_step_trans)
next
  case (7 target va g)
  obtain vt g1 where l: "visit_expression va g = (vt, g1)" by fastforce
  have "expr_step g g1" using 7(1) l by simp
  moreover have "expr_step g1 (emit (TACAssign target vt) g1)"
    by (rule expr_step_emit) simp_all
  moreover have "g' = emit (TACAssign target vt) g1" using 7(2) l by auto
  ultimately show ?case by (metis expr_step_trans)
next
  case (8 name arguments g)
  obtain t g2 where t: "new_temp (visit_params (rev arguments) g) = (t, g2)" by fastforce
  have "expr_step g (visit_params (rev arguments) g)" using 8(1) by simp
  moreover have "expr_step (visit_params (rev arguments) g) (emit (TACCall (Some t) name (length arguments)) g2)"
    using t by (rule expr_step_temp) (use t in \<open>auto simp: new_temp_def\<close>)
  moreover have "g' = emit (TACCall (Some t) name (length arguments)) g2" using 8(2) t by auto
  ultimately show ?case by (metis expr_step_trans)
next
  case (10 arg args g)
  obtain at g1 where l: "visit_expression arg g = (at, g1)" by fastforce
  have "expr_step g g1" using 10(1) l by simp
  moreover have "expr_step g1 (emit (TACParam at) g1)"
    by (rule expr_step_emit) simp_all
  moreover have "expr_step (emit (TACParam at) g1) g''" using 10(2)[OF refl l[symmetric]] 10(3) l by simp
  ultimately show ?case by (metis expr_step_trans)
qed (simp_all add: expr_step_refl)

lemma visit_expression_step':
  "expr_step g (snd (visit_expression e g))"
  by (cases "visit_expression e g") (simp add: visit_expression_step)

lemma grows_refl: "grows g g"
  by (simp add: grows_def)

lemma grows_trans: "grows g g1 \<Longrightarrow> grows g1 g2 \<Longrightarrow> grows g g2"
  unfolding grows_def by (auto simp: temp_names_trans)

lemma grows_expr: "grows g h \<Longrightarrow> grows g (snd (visit_expression e h))"
  using visit_expression_step'[of h e]
  unfolding grows_def expr_step_def by (auto simp: temp_names_trans)

lemma grows_emit:
  "grows g h \<Longrightarrow> fresh_temps [i] = [] \<Longrightarrow> call_ok i \<Longrightarrow> grows g (emit i h)"
  unfolding grows_def by (auto simp: temps_of_def calls_ok_def)

lemma grows_new_label: "grows g h \<Longrightarrow> grows g (snd (new_label h))"
  unfolding grows_def by (auto simp: temps_of_def calls_ok_def)

lemma compound_rel:
  assumes "\<And>g. Q g g" and "\<And>g h k. Q g h \<Longrightarrow> Q h k \<Longrightarrow> Q g k"
    and "\<And>s g. s \<in> set ss \<Longrightarrow> Q g (visit_statement s g)"
  shows "Q g (visit_compound_stmt ss g)"
  using assms(3)
proof (induction ss arbitrary: g)
  case Nil
  show ?case by (simp add: assms(1))
next
  case (Cons s ss)
  have "Q g (visit_statement s g)" by (rule Cons.prems) simp
  moreover have "Q (visit_statement s g) (visit_compound_stmt ss (visit_statement s g))"
    by (rule Cons.IH) (simp add: Cons.prems)
  ultimately show ?case using assms(2) by auto
qed

lemma grows_stmt0: "grows g (visit_statement s g)"
proof (induction s arbitrary: g)
  case (FunctionDecl x1 x2 x3 x4)
  then show ?case by (simp add: grows_refl)
next
  case (VarDecl x1 x2 x3)
  then show ?case
    by (auto simp: visit_var_decl_def split_beta grows_refl split: option.splits
        intro!: grows_emit grows_expr)
next
  case (CompoundStmt ss)
  then show ?case
    by (auto intro!: compound_rel[where Q=grows] grows_refl intro: grows_trans)
next
  case (ExpressionStmt x)
  then show ?case
    by (auto simp: grows_refl split: option.splits intro!: grows_expr)
next
  case (ReturnStmt x)
  then show ?case
    by (auto simp: visit_return_stmt_def split_beta grows_refl split: option.splits
        intro!: grows_emit grows_expr)
next
  case (IfStmt c t e)
  have t: "grows g h \<Longrightarrow> grows g (visit_statement t h)" for g h
    using IfStmt(1) grows_trans by blast
  have e: "e = Some x \<Longrightarrow> grows g h \<Longrightarrow> grows g (visit_statement x h)" for g h x
    using IfStmt(2)[of x] grows_trans by auto
  show ?case
    by (auto simp: split_beta Let_def grows_refl split: option.splits
        intro!: grows_emit grows_expr grows_new_label t e)
next
  case (WhileStmt c b)
  have b: "grows g h \<Longrightarrow> grows g (visit_statement b h)" for g h
    using WhileStmt grows_trans by blast
  show ?case
    by (auto simp: split_beta Let_def grows_refl intro!: grows_emit grows_expr grows_new_label b)
next
  case (ForStmt i c u b)
  have b: "grows g h \<Longrightarrow> grows g (visit_statement b h)" for g h
    using ForStmt(2) grows_trans by blast
  have i: "i = Some x \<Longrightarrow> grows g h \<Longrightarrow> grows g (visit_statement x h)" for g h x
    using ForStmt(1)[of x] grows_trans by auto
  show ?case
    by (auto simp: split_beta Let_def grows_refl split: option.splits
        intro!: grows_emit grows_expr grows_new_label b i)
qed

lemma label_mset_refl [simp]: "label_mset a a = {#}"
  by (simp add: label_mset_def)

lemma label_mset_split: "a \<le> b \<Longrightarrow> b \<le> c \<Longrightarrow> label_mset a c = label_mset a b + label_mset b c"
  unfolding label_mset_def by (metis label_names_trans mset_append)

lemma label_mset_Suc: "label_mset a (Suc a) = {#CHR ''L'' # str_nat a#}"
  by (simp add: label_mset_def label_names_def)

lemma labels_step_refl: "labels_step g g"
  by (simp add: labels_step_def)

lemma labels_step_trans: "labels_step g h \<Longrightarrow> labels_step h k \<Longrightarrow> labels_step g k"
  unfolding labels_step_def by (auto simp: label_mset_split[of "label_counter g" "label_counter h" "label_counter k"])

lemma labels_of_emit [simp]: "labels_of (emit i g) = labels_of g + mset (label_defs [i])"
  by (simp add: labels_of_def)

lemma labels_of_new_label [simp]: "labels_of (snd (new_label g)) = labels_of g"
  by (simp add: labels_of_def)

lemma labels_of_expr [simp]:
  "labels_of (snd (visit_expression e g)) = labels_of g"
  "label_counter (snd (visit_expression e g)) = label_counter g"
  using visit_expression_step'[of g e] by (simp_all add: expr_step_def)

lemma labels_step_expr: "labels_step g (snd (visit_expression e g))"
  by (simp add: labels_step_def)

lemma labels_step_emit: "label_defs [i] = [] \<Longrightarrow> labels_step g (emit i g)"
  by (simp add: labels_step_def)

lemma labels_stmt0: "labels_step g (visit_statement s g)"
proof (induction s arbitrary: g)
  case (FunctionDecl x1 x2 x3 x4)
  then show ?case by (simp add: labels_step_refl)
next
  case (VarDecl x1 x2 x3)
  then show ?case
    by (auto simp: visit_var_decl_def split_beta labels_step_def split: option.splits)
next
  case (CompoundStmt ss)
  then show ?case
    by (auto intro!: compound_rel[where Q=labels_step] labels_step_refl intro: labels_step_trans)
next
  case (ExpressionStmt x)
  then show ?case
    by (auto simp: labels_step_def split: option.splits)
next
  case (ReturnStmt x)
  then show ?case
    by (auto simp: visit_return_stmt_def split_beta labels_step_def split: option.splits)
next
  case (IfStmt c t e)
  define a where "a = label_counter g"
  show ?case
  proof (cases e)
    case None
    define h where "h = emit (TACIfFalseGoto (fst (visit_expression c g)) (CHR ''L'' # str_nat a))
                          (snd (new_label (snd (visit_expression c g))))"
    have h: "label_counter h = Suc a" "labels_of h = labels_of g" by (simp_all add: h_def a_def)
    have r: "visit_statement (IfStmt c t e) g = emit (TACLabel (CHR ''L'' # str_nat a)) (visit_statement t h)"
      by (simp add: None split_beta Let_def h_def a_def)
    from IfStmt(1)[of h] have t: "Suc a \<le> label_counter (visit_statement t h)"
      "labels_of (visit_statement t h) = labels_of g + label_mset (Suc a) (label_counter (visit_statement t h))"
      by (simp_all add: labels_step_def h)
    have "label_mset a (label_counter (visit_statement t h)) =
        label_mset a (Suc a) + label_mset (Suc a) (label_counter (visit_statement t h))"
      using t(1) by (intro label_mset_split) simp_all
    then show ?thesis unfolding r labels_step_def using t
      by (simp add: a_def[symmetric] label_mset_Suc)
  next
    case (Some els)
    define h where "h = emit (TACIfFalseGoto (fst (visit_expression c g)) (CHR ''L'' # str_nat a))
                          (snd (new_label (snd (new_label (snd (visit_expression c g))))))"
    define k where "k = emit (TACLabel (CHR ''L'' # str_nat a))
                          (emit (TACGoto (CHR ''L'' # str_nat (Suc a))) (visit_statement t h))"
    define b where "b = label_counter (visit_statement t h)"
    define d where "d = label_counter (visit_statement els k)"
    have h: "label_counter h = Suc (Suc a)" "labels_of h = labels_of g" by (simp_all add: h_def a_def)
    have r: "visit_statement (IfStmt c t e) g = emit (TACLabel (CHR ''L'' # str_nat (Suc a))) (visit_statement els k)"
      by (simp add: Some split_beta Let_def h_def k_def a_def)
    from IfStmt(1)[of h] have t: "Suc (Suc a) \<le> b"
      "labels_of (visit_statement t h) = labels_of g + label_mset (Suc (Suc a)) b"
      by (simp_all add: labels_step_def h b_def)
    have k: "label_counter k = b" "labels_of k = labels_of g + label_mset (Suc (Suc a)) b + {#CHR ''L'' # str_nat a#}"
      by (simp_all add: k_def t b_def)
    from IfStmt(2)[of els k] Some have e: "b \<le> d"
      "labels_of (visit_statement els k) = labels_of k + label_mset b d"
      by (simp_all add: labels_step_def k d_def)
    have "label_mset a d = label_mset a (Suc a) + (label_mset (Suc a) (Suc (Suc a)) + (label_mset (Suc (Suc a)) b + label_mset b d))"
      using t(1) e(1) by (simp add: label_mset_split[symmetric])
    then show ?thesis unfolding r labels_step_def using t e k
      by (simp add: a_def[symmetric] d_def[symmetric] label_mset_Suc)
  qed
next
  case (WhileStmt c b)
  define a where "a = label_counter g"
  define h where "h = emit (TACIfFalseGoto (fst (visit_expression c (emit (TACLabel (CHR ''L'' # str_nat a)) (snd (new_label (snd (new_label g)))))))
                              (CHR ''L'' # str_nat (Suc a)))
                        (snd (visit_expression c (emit (TACLabel (CHR ''L'' # str_nat a)) (snd (new_label (snd (new_label g)))))))"
  define d where "d = label_counter (visit_statement b h)"
  have h: "label_counter h = Suc (Suc a)" "labels_of h = labels_of g + {#CHR ''L'' # str_nat a#}"
    by (simp_all add: h_def a_def)
  have r: "visit_statement (WhileStmt c b) g =
      emit (TACLabel (CHR ''L'' # str_nat (Suc a))) (emit (TACGoto (CHR ''L'' # str_nat a)) (visit_statement b h))"
    by (simp add: split_beta Let_def h_def a_def)
  from WhileStmt[of h] have t: "Suc (Suc a) \<le> d"
    "labels_of (visit_statement b h) = labels_of h + label_mset (Suc (Suc a)) d"
    by (simp_all add: labels_step_def h d_def)
  have "label_mset a d = label_mset a (Suc a) + (label_mset (Suc a) (Suc (Suc a)) + label_mset (Suc (Suc a)) d)"
    using t(1) by (simp add: label_mset_split[symmetric])
  then show ?case unfolding r labels_step_def using t h
    by (simp add: a_def[symmetric] d_def[symmetric] label_mset_Suc)
next
  case (ForStmt i c u b)
  define g1 where "g1 = (case i of Some x \<Rightarrow> visit_statement x g | None \<Rightarrow> g)"
  define a where "a = label_counter g1"
  define g5 where "g5 = emit (TACLabel (CHR ''L'' # str_nat a)) (snd (new_label (snd (new_label (snd (new_label g1))))))"
  define g6 where "g6 = (case c of
                  Some c \<Rightarrow> emit (TACIfFalseGoto (fst (visit_expression c g5)) (CHR ''L'' # str_nat (Suc a))) (snd (visit_expression c g5))
                | None \<Rightarrow> g5)"
  define g8 where "g8 = emit (TACLabel (CHR ''L'' # str_nat (Suc (Suc a)))) (visit_statement b g6)"
  define g9 where "g9 = (case u of Some u \<Rightarrow> snd (visit_expression u g8) | None \<Rightarrow> g8)"
  define d where "d = label_counter (visit_statement b g6)"
  have r: "visit_statement (ForStmt i c u b) g =
      emit (TACLabel (CHR ''L'' # str_nat (Suc a))) (emit (TACGoto (CHR ''L'' # str_nat a)) g9)"
    by (simp add: split_beta Let_def g1_def a_def g5_def g6_def g8_def g9_def cong: option.case_cong)
  have g1: "labels_step g g1"
    using ForStmt(1) by (auto simp: g1_def labels_step_refl split: option.splits)
  have g5: "label_counter g5 = Suc (Suc (Suc a))" "labels_of g5 = labels_of g1 + {#CHR ''L'' # str_nat a#}"
    by (simp_all add: g5_def a_def)
  have g6: "label_counter g6 = Suc (Suc (Suc a))" "labels_of g6 = labels_of g1 + {#CHR ''L'' # str_nat a#}"
    by (simp_all add: g6_def g5 split: option.splits)
  from ForStmt(2)[of g6] have t: "Suc (Suc (Suc a)) \<le> d"
    "labels_of (visit_statement b g6) = labels_of g6 + label_mset (Suc (Suc (Suc a))) d"
    by (simp_all add: labels_step_def g6 d_def)
  have g9: "label_counter g9 = d" "labels_of g9 = labels_of (visit_statement b g6) + {#CHR ''L'' # str_nat (Suc (Suc a))#}"
    by (simp_all add: g9_def g8_def d_def split: option.splits)
  have "label_mset a d = label_mset a (Suc a) + (label_mset (Suc a) (Suc (Suc a)) +
        (label_mset (Suc (Suc a)) (Suc (Suc (Suc a))) + label_mset (Suc (Suc (Suc a))) d))"
    using t(1) by (simp add: label_mset_split[symmetric])
  then have "labels_step g1 (visit_statement (ForStmt i c u b) g)"
    unfolding r labels_step_def using t g6 g9
    by (simp add: a_def[symmetric] label_mset_Suc)
  with g1 show ?case by (rule labels_step_trans)
qed

lemma grows_stmt: "grows g h \<Longrightarrow> grows g (visit_statement s h)"
  using grows_stmt0 grows_trans by blast

lemma grows_compound: "grows g (visit_compound_stmt ss g)"
  by (rule compound_rel[where Q=grows]) (auto intro: grows_refl grows_trans grows_stmt0)

lemma labels_compound: "labels_step g (visit_compound_stmt ss g)"
  by (rule compound_rel[where Q=labels_step]) (auto intro: labels_step_refl labels_step_trans labels_stmt0)

lemma grows_var_decl: "grows g (visit_var_decl name init g)"
  using grows_stmt0[of g "VarDecl [] name init"] by simp

lemma labels_var_decl: "labels_step g (visit_var_decl name init g)"
  using labels_stmt0[of g "VarDecl [] name init"] by simp

lemma grows_function_decl: "grows g (visit_function_decl name body g)"
proof (cases body)
  case None
  then show ?thesis by (simp add: visit_function_decl_def grows_refl)
next
  case (Some ss)
  have "grows g (emit (TACFunctionStart name) g)"
    by (intro grows_emit grows_refl) simp_all
  then have "grows g (visit_compound_stmt ss (emit (TACFunctionStart name) g))"
    using grows_compound grows_trans by blast
  then show ?thesis by (simp add: visit_function_decl_def Some grows_emit)
qed

lemma labels_function_decl: "labels_step g (visit_function_decl name body g)"
proof (cases body)
  case None
  then show ?thesis by (simp add: visit_function_decl_def labels_step_refl)
next
  case (Some ss)
  have "labels_step g (emit (TACFunctionStart name) g)"
    by (intro labels_step_emit) simp
  moreover have "labels_step (emit (TACFunctionStart name) g) (visit_compound_stmt ss (emit (TACFunctionStart name) g))"
    by (rule labels_compound)
  moreover have "labels_step (visit_compound_stmt ss (emit (TACFunctionStart name) g))
      (emit (TACFunctionEnd name) (visit_compound_stmt ss (emit (TACFunctionStart name) g)))"
    by (intro labels_step_emit) simp
  ultimately show ?thesis unfolding visit_function_decl_def Some option.case
    by (blast intro: labels_step_trans)
qed

lemma grows_program: "grows g (visit_program ast g)"
proof (induction ast g rule: visit_program.induct)
  case (2 return_type name parameters body decls g)
  with grows_function_decl[of g name body] show ?case by (auto intro: grows_trans)
next
  case (3 var_type name initializer decls g)
  with grows_var_decl[of g name initializer] show ?case by (auto intro: grows_trans)
qed (simp_all add: grows_refl)

lemma labels_program: "labels_step g (visit_program ast g)"
proof (induction ast g rule: visit_program.induct)
  case (2 return_type name parameters body decls g)
  with labels_function_decl[of g name body] show ?case by (auto intro: labels_step_trans)
next
  case (3 var_type name initializer decls g)
  with labels_var_decl[of g name initializer] show ?case by (auto intro: labels_step_trans)
qed (simp_all add: labels_step_refl)

lemma distinct_temp_names: "distinct (temp_names a b)"
  unfolding temp_names_def by (auto simp: distinct_map inj_on_def dest: str_nat_inj)

lemma distinct_label_names: "distinct (label_names a b)"
  unfolding label_names_def by (auto simp: distinct_map inj_on_def dest: str_nat_inj)

lemma generate_temps:
  "fresh_temps (generate ast) = temp_names 0 (temp_counter (visit_program ast new_generator))"
  using grows_program[of new_generator ast]
  by (simp add: grows_def generate_def temps_of_def new_generator_def)

lemma generate_labels:
  "mset (label_defs (generate ast)) = mset (label_names 0 (label_counter (visit_program ast new_generator)))"
  using labels_program[of new_generator ast]
  by (simp add: labels_step_def generate_def labels_of_def label_mset_def new_generator_def)

lemma generate_calls_ok: "list_all call_ok (generate ast)"
  using grows_program[of new_generator ast]
  by (simp add: grows_def generate_def calls_ok_def new_generator_def)

text \<open>
  Claim C4.  In the TAC list of one run of the generator on any program, the temporaries
  allocated by \<open>new_temp\<close> are pairwise different and so are the labels defined: the
  temporaries are exactly \<open>t0 \<dots>\<close> up to the final counter, in order, and the labels are
  a rearrangement of \<open>L0 \<dots>\<close> up to the final label counter.  The two counters are
  independent (allocating from one leaves the other alone), each allocation adds one, and a
  function declaration continues from the counters it finds instead of resetting them.
\<close>

theorem fresh_names_unique:
  "distinct (fresh_temps (generate ast)) \<and> distinct (label_defs (generate ast)) \<and>
   fresh_temps (generate ast) = temp_names 0 (temp_counter (visit_program ast new_generator)) \<and>
   mset (label_defs (generate ast)) = mset (label_names 0 (label_counter (visit_program ast new_generator))) \<and>
   temp_counter (snd (new_temp g)) = temp_counter g + 1 \<and>
   label_counter (snd (new_temp g)) = label_counter g \<and>
   label_counter (snd (new_label g)) = label_counter g + 1 \<and>
   temp_counter (snd (new_label g)) = temp_counter g \<and>
   temp_counter g \<le> temp_counter (visit_function_decl name body g) \<and>
   label_counter g \<le> label_counter (visit_function_decl name body g)"
proof -
  have "distinct (fresh_temps (generate ast))"
    by (simp add: generate_temps distinct_temp_names)
  moreover have "distinct (label_defs (generate ast))"
    using generate_labels[of ast] distinct_label_names mset_eq_imp_distinct_iff by blast
  moreover have "temp_counter g \<le> temp_counter (visit_function_decl name body g)"
    "label_counter g \<le> label_counter (visit_function_decl name body g)"
    using grows_function_decl[of g name body] by (simp_all add: grows_def)
  ultimately show ?thesis by (simp add: generate_temps generate_labels)
qed

lemma call_result_fresh: "TACCall (Some r) f n \<in> set is \<Longrightarrow> r \<in> set (fresh_temps is)"
  by (induction "is" rule: fresh_temps.induct) auto

text \<open>
  Claim C10.  Every \<open>TACCall\<close> in the generated list has a result, the result is a
  temporary \<open>t\<^sub>k\<close>, and the instruction prints as \<open>t\<^sub>k = call f, n\<close>; the form without
  result is never produced, whatever the place of the call or the type of the callee.
\<close>

theorem call_has_result:
  "\<forall>i \<in> set (generate ast). \<forall>r f n. i = TACCall r f n \<longrightarrow>
     (\<exists>k. r = Some (CHR ''t'' # str_nat k) \<and>
          tac_str i = (CHR ''t'' # str_nat k) @ '' = call '' @ f @ '', '' @ str_nat n)"
proof (intro ballI allI impI)
  fix i r f n assume i: "i \<in> set (generate ast)" and c: "i = TACCall r f n"
  from generate_calls_ok[of ast] i c have "r \<noteq> None" by (auto simp: list_all_iff)
  then obtain x where r: "r = Some x" by auto
  with i c have "x \<in> set (fresh_temps (generate ast))" by (auto intro: call_result_fresh)
  then obtain k where "x = CHR ''t'' # str_nat k"
    by (auto simp: generate_temps temp_names_def)
  with r c show "\<exists>k. r = Some (CHR ''t'' # str_nat k) \<and>
          tac_str i = (CHR ''t'' # str_nat k) @ '' = call '' @ f @ '', '' @ str_nat n"
    by auto
qed

lemma instructions_visit_expression:
  "instructions (snd (visit_expression e g)) = instructions g @ expr_code e g"
  using visit_expression_step'[of g e] by (auto simp: expr_step_def expr_code_def)

lemma instructions_visit_params:
  "instructions (visit_params es g) = instructions g @ param_blocks es g"
  by (induction es arbitrary: g) (simp_all add: split_beta instructions_visit_expression)

theorem call_has_result_witness:
  "TACCall (Some ''t0'') ''f'' 0 \<in> set (generate
      [FunctionDecl ''void'' ''f'' [] (Some []),
       FunctionDecl ''int'' ''main'' [] (Some [ExpressionStmt (Some (FunctionCall ''f'' [])),
                                               ReturnStmt (Some (IntLiteral 0))])]) \<and>
   (\<exists>k. Some ''t0'' = Some (CHR ''t'' # str_nat k) \<and>
        tac_str (TACCall (Some ''t0'') ''f'' 0) =
          (CHR ''t'' # str_nat k) @ '' = call '' @ ''f'' @ '', '' @ str_nat 0)"
proof -
  let ?p = "[FunctionDecl ''void'' ''f'' [] (Some []),
       FunctionDecl ''int'' ''main'' [] (Some [ExpressionStmt (Some (FunctionCall ''f'' [])),
                                               ReturnStmt (Some (IntLiteral 0))])]"
  have mem: "TACCall (Some ''t0'') ''f'' 0 \<in> set (generate ?p)"
    by (simp add: generate_def visit_function_decl_def visit_return_stmt_def new_generator_def
        new_temp_def emit_def str_int_def str_nat.simps digit_char_def)
  from call_has_result[of ?p] mem show ?thesis by blast
qed

text \<open>
  Claim C6.  Lowering \<open>FunctionCall name arguments\<close> appends, for the arguments taken in
  reverse source order, the lowering of the argument followed at once by its \<open>param\<close>,
  and then one call instruction \<open>t = call name, n\<close> with a fresh temporary \<open>t\<close> and
  \<open>n\<close> the number of arguments.
\<close>

theorem call_lowering:
  "instructions (snd (visit_expression (FunctionCall name arguments) g)) =
     instructions g @ param_blocks (rev arguments) g @
     [TACCall (Some (fst (visit_expression (FunctionCall name arguments) g))) name (length arguments)] \<and>
   fst (visit_expression (FunctionCall name arguments) g) =
     CHR ''t'' # str_nat (temp_counter (visit_params (rev arguments) g)) \<and>
   tac_str (TACCall (Some (fst (visit_expression (FunctionCall name arguments) g))) name (length arguments)) =
     fst (visit_expression (FunctionCall name arguments) g) @ '' = call '' @ name @ '', '' @ str_nat (length arguments)"
proof -
  let ?g1 = "visit_params (rev arguments) g"
  have params: "instructions ?g1 = instructions g @ param_blocks (rev arguments) g"
    by (rule instructions_visit_params)
  have result: "fst (visit_expression (FunctionCall name arguments) g) = fst (new_temp ?g1)"
    and state: "snd (visit_expression (FunctionCall name arguments) g) =
      emit (TACCall (Some (fst (new_temp ?g1))) name (length arguments)) (snd (new_temp ?g1))"
    by (simp_all add: split_beta Let_def)
  have "fst (new_temp ?g1) \<noteq> []" by simp
  then show ?thesis unfolding result state by (simp add: params)
qed

lemma visit_program_filter:
  "visit_program (filter (\<lambda>d. \<not> is_uninitialized_var d) ast) g = visit_program ast g"
proof (induction ast g rule: visit_program.induct)
  case (3 var_type name initializer decls g)
  then show ?case by (cases initializer) (simp_all add: visit_var_decl_def)
qed simp_all

text \<open>
  Claim C1, as amended.  A global variable declaration without initializer adds nothing
  to the TAC list: removing all of them from a program leaves the generated list unchanged.
  A global declaration with an initializer is lowered like a local one: the lowering of the
  initializer followed by the copy \<open>name = value\<close>.
\<close>

theorem global_var_decl_tac:
  "generate (filter (\<lambda>d. \<not> is_uninitialized_var d) ast) = generate ast \<and>
   instructions (visit_program [VarDecl var_type name (Some e)] g) =
     instructions g @ expr_code e g @ [TACAssign name (fst (visit_expression e g))]"
  by (simp add: generate_def visit_program_filter visit_var_decl_def split_beta
      instructions_visit_expression)

text \<open>
  Claim C1 as stated fails: the program \<open>int x = 5;\<close> consists of one global declaration,
  and the generator emits \<open>x = 5\<close> for it.
\<close>

theorem global_var_decl_counterexample:
  "generate [VarDecl ''int'' ''x'' (Some (IntLiteral 5))] = [TACAssign ''x'' ''5'']"
  by (simp add: generate_def visit_var_decl_def new_generator_def emit_def str_int_def str_nat.simps digit_char_def)

section \<open>The semantic analyzer: the walk, scopes and labels\<close>

lemma expr_keeps_refl: "expr_keeps a a"
  by (simp add: expr_keeps_def)

lemma expr_keeps_trans: "expr_keeps a b \<Longrightarrow> expr_keeps b c \<Longrightarrow> expr_keeps a c"
  by (auto simp: expr_keeps_def)

lemma expr_keeps_error: "expr_keeps a b \<Longrightarrow> expr_keeps a (error_sem m b)"
  by (auto simp: expr_keeps_def error_sem_def)

lemma arguments_keep:
  "(\<And>e a. e \<in> set es \<Longrightarrow> expr_keeps a (snd (visit_expression_sem e a)))
   \<Longrightarrow> expr_keeps a (visit_arguments_sem es a)"
proof (induction es arbitrary: a)
  case Nil
  show ?case by (simp add: expr_keeps_refl)
next
  case (Cons e es)
  have "expr_keeps a (snd (visit_expression_sem e a))" by (rule Cons.prems) simp
  moreover have "expr_keeps (snd (visit_expression_sem e a)) (visit_arguments_sem es (snd (visit_expression_sem e a)))"
    by (rule Cons.IH) (simp add: Cons.prems)
  ultimately show ?case by (auto intro: expr_keeps_trans)
qed

lemma visit_expression_sem_keeps: "expr_keeps a (snd (visit_expression_sem e a))"
proof (induction e arbitrary: a)
  case (BinaryOp op l r)
  have "expr_keeps a (snd (visit_expression_sem r (snd (visit_expression_sem l a))))"
    using BinaryOp expr_keeps_trans by blast
  then show ?case by (simp add: split_beta Let_def)
next
  case (UnaryOp op e)
  then show ?case by (simp add: split_beta Let_def)
next
  case (FunctionCall name args)
  then show ?case
    by (auto simp: expr_keeps_refl split: option.splits intro!: expr_keeps_error arguments_keep)
next
  case (Assignment target e)
  then show ?case
    by (auto simp: split_beta Let_def expr_keeps_refl split: option.splits intro!: expr_keeps_error)
qed (auto simp: expr_keeps_refl split: option.splits intro!: expr_keeps_error)

lemma walk_step_refl: "walk_step a a"
  by (simp add: walk_step_def)

lemma walk_step_trans: "walk_step a b \<Longrightarrow> walk_step b c \<Longrightarrow> walk_step a c"
  by (auto simp: walk_step_def)

lemma walk_step_expr: "expr_keeps a b \<Longrightarrow> walk_step a b"
  by (auto simp: walk_step_def expr_keeps_def)

lemma walk_step_visit_expression: "walk_step a (snd (visit_expression_sem e a))"
  by (rule walk_step_expr) (rule visit_expression_sem_keeps)

lemma walk_step_error: "walk_step a b \<Longrightarrow> walk_step a (error_sem m b)"
  by (auto simp: walk_step_def error_sem_def)

lemma walks_Returned: "walk_step a b \<Longrightarrow> walks a (Returned b)"
  by (simp add: walks_def)

lemma walks_seq:
  assumes "walks a out" and "\<And>b. walk_step a b \<Longrightarrow> walks b (k b)"
  shows "walks a (case out of Raised x b \<Rightarrow> Raised x b | Returned b \<Rightarrow> k b)"
proof -
  from assms(1) obtain b where b: "out = Returned b" "walk_step a b" by (auto simp: walks_def)
  from assms(2)[OF b(2)] obtain c where c: "k b = Returned c" "walk_step b c" by (auto simp: walks_def)
  from b(2) c(2) have "walk_step a c" by (rule walk_step_trans)
  then show ?thesis by (simp add: b(1) c(1) walks_def)
qed

lemma walk_step_nonempty:
  "walk_step a b \<Longrightarrow> scopes (symbol_table a) \<noteq> [] \<Longrightarrow> scopes (symbol_table b) \<noteq> []"
  by (auto simp: walk_step_def)

lemma label_inv_declare:
  assumes "declare_symbol name ty t = Inr t'" and "label_inv t"
  shows "label_inv t'"
proof -
  let ?sym = "\<lparr>sym_name = name, sym_type = ty, sym_scope = current_scope t\<rparr>"
  from assms(1) have ne: "scopes t \<noteq> []" and fresh: "last (scopes t) name = None"
    and t': "t' = t\<lparr>scopes := butlast (scopes t) @ [(last (scopes t))(name \<mapsto> ?sym)],
                       declared := declared t @ [?sym]\<rparr>"
    by (auto simp: declare_symbol_def Let_def split: if_splits)
  have "ran frame \<subseteq> set (declared t')" if "frame \<in> set (scopes t')" for frame
  proof (cases "frame \<in> set (butlast (scopes t))")
    case True
    then have "frame \<in> set (scopes t)" by (rule in_set_butlastD)
    with assms(2) show ?thesis by (auto simp: label_inv_def t')
  next
    case False
    with that have "frame = (last (scopes t))(name \<mapsto> ?sym)" by (simp add: t')
    moreover have "ran (last (scopes t)) \<subseteq> set (declared t)"
      using assms(2) ne by (simp add: label_inv_def)
    ultimately show ?thesis using fresh by (auto simp: t')
  qed
  then show ?thesis using assms(2) by (auto simp: label_inv_def t')
qed

lemma walks_try_declare:
  "scopes (symbol_table a) \<noteq> [] \<Longrightarrow> walks a (try_declare name ty a)"
proof (cases "declare_symbol name ty (symbol_table a)")
  case (Inl x)
  assume "scopes (symbol_table a) \<noteq> []"
  with Inl obtain m where "x = SemanticError m"
    by (auto simp: declare_symbol_def Let_def split: if_splits)
  with Inl show ?thesis
    by (simp add: try_declare_def walks_Returned walk_step_error walk_step_refl)
next
  case (Inr t')
  assume "scopes (symbol_table a) \<noteq> []"
  with Inr have "length (scopes t') = length (scopes (symbol_table a))"
    by (auto simp: declare_symbol_def Let_def split: if_splits)
  then show ?thesis using Inr label_inv_declare[OF Inr]
    by (simp add: try_declare_def walks_def walk_step_def)
qed

lemma walks_var_decl:
  "scopes (symbol_table a) \<noteq> [] \<Longrightarrow> walks a (visit_var_decl_sem ty name init a)"
  unfolding visit_var_decl_sem_def
  by (intro walks_seq walks_try_declare)
     (auto simp: split_beta Let_def walk_step_refl split: option.splits
       intro!: walks_Returned walk_step_error walk_step_visit_expression)

lemma walk_step_return: "walk_step a (visit_return_stmt_sem e a)"
  by (auto simp: visit_return_stmt_sem_def split_beta Let_def walk_step_refl split: option.splits
      intro!: walk_step_error walk_step_visit_expression)

lemma walks_bracket:
  assumes "scopes (symbol_table a) \<noteq> []" and "scope_label_ok l"
    and "\<And>b. scopes (symbol_table b) \<noteq> [] \<Longrightarrow> walks b (k b)"
  shows "walks a (case k (a\<lparr>symbol_table := enter_scope l (symbol_table a)\<rparr>) of
                    Raised x b \<Rightarrow> Raised x b
                  | Returned b \<Rightarrow> Returned (b\<lparr>symbol_table := exit_scope (symbol_table b)\<rparr>))"
proof -
  let ?a0 = "a\<lparr>symbol_table := enter_scope l (symbol_table a)\<rparr>"
  have "walks ?a0 (k ?a0)" by (rule assms(3)) (simp add: enter_scope_def)
  then obtain b where b: "k ?a0 = Returned b" "walk_step ?a0 b" by (auto simp: walks_def)
  have "walk_step a (b\<lparr>symbol_table := exit_scope (symbol_table b)\<rparr>)"
    using b(2) assms(1,2)
    by (auto simp: walk_step_def enter_scope_def exit_scope_def label_inv_def scope_label_ok_def
        dest: in_set_butlastD)
  then show ?thesis by (simp add: b(1) walks_def)
qed

lemma walks_compound:
  assumes "\<And>s a. s \<in> set ss \<Longrightarrow> scopes (symbol_table a) \<noteq> [] \<Longrightarrow> walks a (visit_statement_sem s a)"
    and "scopes (symbol_table a) \<noteq> []"
  shows "walks a (visit_compound_stmt_sem ss a)"
  using assms
proof (induction ss arbitrary: a)
  case Nil
  show ?case by (simp add: walks_Returned walk_step_refl)
next
  case (Cons s ss)
  show ?case
    unfolding visit_compound_stmt_sem.simps
    by (intro walks_seq Cons.prems(1) Cons.IH) (auto simp: Cons.prems dest: walk_step_nonempty)
qed

lemma walks_statement:
  "scopes (symbol_table a) \<noteq> [] \<Longrightarrow> walks a (visit_statement_sem s a)"
proof (induction s arbitrary: a)
  case (FunctionDecl x1 x2 x3 x4)
  show ?case by (simp add: walks_Returned walk_step_refl)
next
  case (VarDecl x1 x2 x3)
  then show ?case by (simp add: walks_var_decl)
next
  case (CompoundStmt ss)
  show ?case
    unfolding visit_statement_sem.simps
    by (rule walks_bracket[where k="visit_compound_stmt_sem ss"])
       (auto simp: CompoundStmt scope_label_ok_def intro!: walks_compound)
next
  case (ExpressionStmt x)
  show ?case
    by (auto split: option.splits intro!: walks_Returned walk_step_refl walk_step_visit_expression)
next
  case (ReturnStmt x)
  show ?case by (simp add: walks_Returned walk_step_return)
next
  case (IfStmt c t e)
  let ?a1 = "snd (visit_expression_sem c a)"
  have a1: "walk_step a ?a1" by (rule walk_step_visit_expression)
  then have ne: "scopes (symbol_table ?a1) \<noteq> []" using IfStmt.prems by (rule walk_step_nonempty)
  have "walks ?a1 (visit_statement_sem (IfStmt c t e) a)"
    unfolding visit_statement_sem.simps
  proof (intro walks_seq IfStmt.IH(1) ne)
    fix b assume "walk_step ?a1 b"
    then have "scopes (symbol_table b) \<noteq> []" using ne by (rule walk_step_nonempty)
    then show "walks b (case e of None \<Rightarrow> Returned b | Some els \<Rightarrow> visit_statement_sem els b)"
      by (auto split: option.splits intro!: walks_Returned walk_step_refl IfStmt.IH(2))
  qed
  with a1 show ?case by (auto simp: walks_def intro: walk_step_trans)
next
  case (WhileStmt c b)
  let ?a1 = "snd (visit_expression_sem c a)"
  have a1: "walk_step a ?a1" by (rule walk_step_visit_expression)
  then have ne: "scopes (symbol_table ?a1) \<noteq> []" using WhileStmt.prems by (rule walk_step_nonempty)
  from WhileStmt.IH[OF ne] a1 show ?case by (auto simp: walks_def intro: walk_step_trans)
next
  case (ForStmt i c u b)
  define k where "k = (\<lambda>a0. case (case i of Some i \<Rightarrow> visit_statement_sem i a0 | None \<Rightarrow> Returned a0) of
        Raised x a1 \<Rightarrow> Raised x a1
      | Returned a1 \<Rightarrow>
          visit_statement_sem b
            (case u of Some u \<Rightarrow> snd (visit_expression_sem u (case c of Some c \<Rightarrow> snd (visit_expression_sem c a1) | None \<Rightarrow> a1))
                     | None \<Rightarrow> (case c of Some c \<Rightarrow> snd (visit_expression_sem c a1) | None \<Rightarrow> a1)))"
  have r: "visit_statement_sem (ForStmt i c u b) a =
      (case k (a\<lparr>symbol_table := enter_scope ''for'' (symbol_table a)\<rparr>) of
         Raised x b \<Rightarrow> Raised x b
       | Returned b \<Rightarrow> Returned (b\<lparr>symbol_table := exit_scope (symbol_table b)\<rparr>))"
    by (simp add: k_def Let_def split: option.splits outcome.splits)
  have k: "walks a0 (k a0)" if ne: "scopes (symbol_table a0) \<noteq> []" for a0
    unfolding k_def
  proof (intro walks_seq)
    show "walks a0 (case i of None \<Rightarrow> Returned a0 | Some i \<Rightarrow> visit_statement_sem i a0)"
      using ne by (auto split: option.splits intro!: walks_Returned walk_step_refl ForStmt.IH(1))
  next
    fix a1 assume "walk_step a0 a1"
    then have ne1: "scopes (symbol_table a1) \<noteq> []" using ne by (rule walk_step_nonempty)
    define a2 where "a2 = (case c of Some c \<Rightarrow> snd (visit_expression_sem c a1) | None \<Rightarrow> a1)"
    define a3 where "a3 = (case u of Some u \<Rightarrow> snd (visit_expression_sem u a2) | None \<Rightarrow> a2)"
    have 2: "walk_step a1 a2"
      by (auto simp: a2_def walk_step_refl split: option.splits intro!: walk_step_visit_expression)
    have 3: "walk_step a2 a3"
      by (auto simp: a3_def walk_step_refl split: option.splits intro!: walk_step_visit_expression)
    from 2 3 have 13: "walk_step a1 a3" by (rule walk_step_trans)
    then have "scopes (symbol_table a3) \<noteq> []" using ne1 by (rule walk_step_nonempty)
    from ForStmt.IH(2)[OF this] 13 have "walks a1 (visit_statement_sem b a3)"
      by (auto simp: walks_def intro: walk_step_trans)
    then show "walks a1 (visit_statement_sem b
            (case u of Some u \<Rightarrow> snd (visit_expression_sem u (case c of Some c \<Rightarrow> snd (visit_expression_sem c a1) | None \<Rightarrow> a1))
                     | None \<Rightarrow> (case c of Some c \<Rightarrow> snd (visit_expression_sem c a1) | None \<Rightarrow> a1)))"
      by (simp add: a3_def a2_def cong: option.case_cong)
  qed
  show ?case unfolding r
    by (rule walks_bracket) (auto simp: ForStmt.prems scope_label_ok_def intro: k)
qed

lemma walks_parameters:
  "scopes (symbol_table a) \<noteq> [] \<Longrightarrow> walks a (declare_parameters ps a)"
proof (induction ps arbitrary: a)
  case Nil
  show ?case by (simp add: walks_Returned walk_step_refl)
next
  case (Cons p ps)
  show ?case
    unfolding declare_parameters.simps
    by (intro walks_seq walks_try_declare Cons.IH) (auto simp: Cons.prems dest: walk_step_nonempty)
qed

lemma walks_function_decl:
  assumes "scopes (symbol_table a) \<noteq> []"
  shows "walks a (visit_function_decl_sem return_type name parameters body a)"
proof (cases body)
  case None
  show ?thesis
    unfolding visit_function_decl_sem_def None option.case
    by (intro walks_seq walks_try_declare assms) (simp add: walks_Returned walk_step_refl)
next
  case (Some statements)
  show ?thesis
    unfolding visit_function_decl_sem_def Some option.case
  proof (rule walks_seq[OF walks_try_declare[OF assms]])
    fix a1 assume "walk_step a a1"
    then have ne: "scopes (symbol_table a1) \<noteq> []" using assms by (rule walk_step_nonempty)
    let ?a2 = "a1\<lparr>symbol_table := enter_scope (''function:'' @ name) (symbol_table a1),
                    current_function_return_type := Some return_type\<rparr>"
    have ne2: "scopes (symbol_table ?a2) \<noteq> []" by (simp add: enter_scope_def)
    have "walks ?a2 (case declare_parameters parameters ?a2 of
                      Raised x b \<Rightarrow> Raised x b
                    | Returned b \<Rightarrow> visit_compound_stmt_sem statements b)"
    proof (intro walks_seq walks_parameters ne2)
      fix b assume "walk_step ?a2 b"
      then have "scopes (symbol_table b) \<noteq> []" using ne2 by (rule walk_step_nonempty)
      then show "walks b (visit_compound_stmt_sem statements b)"
        by (intro walks_compound walks_statement)
    qed
    then obtain a3 where a3: "(case declare_parameters parameters ?a2 of
                      Raised x b \<Rightarrow> Raised x b
                    | Returned b \<Rightarrow> visit_compound_stmt_sem statements b) = Returned a3"
      and step: "walk_step ?a2 a3" by (auto simp: walks_def)
    have "walk_step a1 (a3\<lparr>symbol_table := exit_scope (symbol_table a3),
                            current_function_return_type := None\<rparr>)"
      using step ne
      by (auto simp: walk_step_def enter_scope_def exit_scope_def label_inv_def scope_label_ok_def
          startswith_def dest: in_set_butlastD)
    with a3 show "walks a1
          (case declare_parameters parameters ?a2 of
             Returned a2 \<Rightarrow>
               (case visit_compound_stmt_sem statements a2 of
                  Returned a3 \<Rightarrow> Returned (a3\<lparr>symbol_table := exit_scope (symbol_table a3),
                                                 current_function_return_type := None\<rparr>)
                | Raised x a3 \<Rightarrow> Raised x a3)
           | Raised x a2 \<Rightarrow> Raised x a2)"
      by (auto simp: walks_def split: outcome.splits)
  qed
qed

lemma walks_program:
  "scopes (symbol_table a) \<noteq> [] \<Longrightarrow> walks a (visit_program_sem ast a)"
proof (induction ast arbitrary: a)
  case Nil
  show ?case by (simp add: walks_Returned walk_step_refl)
next
  case (Cons d decls)
  have rest: "walks b (visit_program_sem decls b)" if "walk_step a b" for b
    using that Cons.prems by (intro Cons.IH) (rule walk_step_nonempty)
  show ?case
  proof (cases d)
    case (FunctionDecl return_type name parameters body)
    show ?thesis
      unfolding FunctionDecl visit_program_sem.simps
      by (intro walks_seq walks_function_decl Cons.prems rest)
  next
    case (VarDecl var_type name initializer)
    show ?thesis
      unfolding VarDecl visit_program_sem.simps
      by (intro walks_seq walks_var_decl Cons.prems rest)
  qed (simp_all add: rest walk_step_refl)
qed

lemma label_inv_new: "label_inv new_symbol_table"
  by (simp add: label_inv_def new_symbol_table_def scope_label_ok_def)

lemma walk_from_new:
  obtains a where "visit_program_sem ast new_analyzer = Returned a"
    and "length (scopes (symbol_table a)) = 1" and "label_inv (symbol_table a)"
proof -
  have "walks new_analyzer (visit_program_sem ast new_analyzer)"
    by (rule walks_program) (simp add: new_analyzer_def new_symbol_table_def)
  then obtain a where "visit_program_sem ast new_analyzer = Returned a" "walk_step new_analyzer a"
    by (auto simp: walks_def)
  moreover have "label_inv (symbol_table new_analyzer)" by (simp add: new_analyzer_def label_inv_new)
  ultimately show ?thesis using that
    by (auto simp: walk_step_def new_analyzer_def new_symbol_table_def)
qed




text \<open>
  Claim C2, as amended.  Every symbol ever recorded carries a scope label from the set
  global, function:<name>, for, block, outer: a symbol takes the current label, and leaving
  a scope sets the current label to \<open>outer\<close>.  This holds for every symbol built during
  the analysis and, in particular, for every symbol held in a frame at its end.
\<close>

theorem scope_labels_closed:
  "list_all (\<lambda>s. scope_label_ok (sym_scope s))
     (declared (symbol_table (final (analyze ast new_analyzer)))) \<and>
   (\<forall>frame \<in> set (scopes (symbol_table (final (analyze ast new_analyzer)))).
      \<forall>s \<in> ran frame. scope_label_ok (sym_scope s))"
proof -
  obtain a where a: "visit_program_sem ast new_analyzer = Returned a"
    and inv: "label_inv (symbol_table a)"
    by (rule walk_from_new)
  have state: "symbol_table (final (analyze ast new_analyzer)) = symbol_table a"
    by (simp add: analyze_def final_def a)
  from inv have all: "list_all (\<lambda>s. scope_label_ok (sym_scope s)) (declared (symbol_table a))"
    and held: "\<forall>frame \<in> set (scopes (symbol_table a)). ran frame \<subseteq> set (declared (symbol_table a))"
    by (simp_all add: label_inv_def)
  from all held have "\<forall>frame \<in> set (scopes (symbol_table a)). \<forall>s \<in> ran frame. scope_label_ok (sym_scope s)"
    by (auto simp: list_all_iff)
  with all show ?thesis unfolding state by simp
qed

theorem scope_labels_closed_witness:
  "map sym_scope (declared (symbol_table (final (analyze
      [FunctionDecl ''int'' ''f'' [] (Some []), VarDecl ''int'' ''x'' None] new_analyzer))))
   = [''global'', ''outer''] \<and>
   list_all (\<lambda>s. scope_label_ok (sym_scope s)) (declared (symbol_table (final (analyze
      [FunctionDecl ''int'' ''f'' [] (Some []), VarDecl ''int'' ''x'' None] new_analyzer))))"
proof -
  have "map sym_scope (declared (symbol_table (final (analyze
      [FunctionDecl ''int'' ''f'' [] (Some []), VarDecl ''int'' ''x'' None] new_analyzer))))
   = [''global'', ''outer'']"
    by (simp add: analyze_def final_def new_analyzer_def new_symbol_table_def
        visit_function_decl_sem_def visit_var_decl_sem_def try_declare_def declare_symbol_def
        enter_scope_def exit_scope_def Let_def)
  with scope_labels_closed[of "[FunctionDecl ''int'' ''f'' [] (Some []), VarDecl ''int'' ''x'' None]"]
  show ?thesis by blast
qed

text \<open>
  Claim C2 as stated fails: in \<open>int f() {} int x;\<close> the global \<open>x\<close> is declared after the
  body of \<open>f\<close> has been left and is recorded with the label \<open>outer\<close>, which is none of
  global, function:<name>, for, block.
\<close>

theorem scope_label_counterexample:
  "map sym_scope (declared (symbol_table (final (analyze
      [FunctionDecl ''int'' ''f'' [] (Some []), VarDecl ''int'' ''x'' None] new_analyzer))))
   = [''global'', ''outer''] \<and> \<not> spec_scope_label ''outer''"
  by (simp add: analyze_def final_def new_analyzer_def new_symbol_table_def visit_function_decl_sem_def
      visit_var_decl_sem_def try_declare_def declare_symbol_def enter_scope_def exit_scope_def
      spec_scope_label_def startswith_def Let_def)

section \<open>The scanner: errors and the end-of-input token\<close>








lemma tokens_skip [simp]:
  "tokens (skip_whitespace lx) = tokens lx"
  "tokens (skip_comment lx) = tokens lx"
  "tokens (advance lx) = tokens lx"
  using ahead_skip_whitespace[of lx] ahead_skip_line[of lx] ahead_skip_block[of "advance (advance lx)"]
  by (auto simp: ahead_def skip_comment_def advance_def)






section \<open>The peephole pass\<close>

text \<open>The pass keeps exactly the lines that fail the test of its first pattern, in order,
  and counts the others.\<close>

lemma optimize_loop_filter:
  "optimize_loop ls acc n =
     (acc @ filter (\<lambda>l. \<not> redundant_move l) ls, n + length (filter redundant_move ls))"
  by (induction ls arbitrary: acc n) simp_all

lemma optimize_filter:
  "assembly_code (fst (optimize cg)) = filter (\<lambda>l. \<not> redundant_move l) (assembly_code cg)"
  "snd (optimize cg) = length (filter redundant_move (assembly_code cg))"
  by (simp_all add: optimize_def optimize_loop_filter)

lemma optimize_no_redundant_move:
  "l \<in> set (assembly_code (fst (optimize cg))) \<Longrightarrow> \<not> redundant_move l"
  by (simp add: optimize_filter)

lemma optimize_keeps_lines_without_MOV:
  "filter (\<lambda>l. \<not> contains ''MOV'' l) (assembly_code (fst (optimize cg))) =
   filter (\<lambda>l. \<not> contains ''MOV'' l) (assembly_code cg)"
proof -
  have "(\<not> redundant_move l \<and> \<not> contains ''MOV'' l) = (\<not> contains ''MOV'' l)" for l
    by (auto simp: redundant_move_def)
  then show ?thesis by (simp add: optimize_filter)
qed

text \<open>The scanner reads the string literal of the source text
  \<^verbatim>\<open>f("MOV #\"MOV x");\<close> with the escaped quote as one quote.\<close>

lemma push_source_tokens:
  "map (\<lambda>t. (tok_type t, tok_value t))
     (projr (tokenize (new_lexer (''f('' @ [CHR 0x22] @ ''MOV #'' @ [CHR 0x5C, CHR 0x22] @ ''MOV x'' @
                                  [CHR 0x22] @ '');'')))) =
   [(T_IDENTIFIER, ''f''), (T_LPAREN, ''(''),
    (T_STRING_LITERAL, ''MOV #'' @ [CHR 0x22] @ ''MOV x''),
    (T_RPAREN, '')''), (T_SEMICOLON, '';''), (T_EOF, [])]"
  by code_simp

lemma push_tac:
  "generate push_program =
     [TACFunctionStart ''main'',
      TACParam ([CHR 0x22] @ ''MOV #'' @ [CHR 0x22] @ ''MOV x'' @ [CHR 0x22]),
      TACCall (Some ''t0'') ''f'' 1, TACFunctionEnd ''main'']"
  by (simp add: push_program_def generate_def visit_function_decl_def new_generator_def
      new_temp_def emit_def str_nat.simps digit_char_def)

lemma push_accepted: "errors (final (analyze push_program new_analyzer)) = []"
  by (simp add: push_program_def analyze_def final_def new_analyzer_def new_symbol_table_def
      visit_function_decl_sem_def try_declare_def declare_symbol_def enter_scope_def exit_scope_def
      lookup_def startswith_def error_sem_def Let_def)

lemma push_asm:
  "assembly_code (generate_asm float_ok (generate push_program)) =
    [''; Generated Assembly Code'', ''; Simplified RISC-style instructions'', [],
     CHR 0x0A # ''; Function: main'', ''main:'', ''    PUSH BP'', ''    MOV BP, SP'',
     ''    PUSH #'' @ [CHR 0x22] @ ''MOV #'' @ [CHR 0x22] @ ''MOV x'' @ [CHR 0x22],
     ''    CALL f'', ''    ADD SP, #4'', ''    MOV R0, RAX'',
     ''    MOV SP, BP'', ''    POP BP'', ''    RET'', ''; End of main'']"
  unfolding push_tac
  by (simp add: generate_asm_def new_code_generator_def append_line_def allocate_register_def
      is_constant_def startswith_def endswith_def str_nat.simps digit_char_def Let_def)

text \<open>
  Claim C5, on the input where the code departs from it.  The program
  \<^verbatim>\<open>int f(char s); void main() { f("MOV #\"MOV x"); }\<close> passes the semantic analysis; its
  assembly listing holds the line \<^verbatim>\<open>    PUSH #"MOV #"MOV x"\<close>, which is not a \<open>MOV\<close>
  instruction; the peephole pass removes that line, counts one elimination, and leaves the
  call without its argument.  This holds whatever strings Python's \<open>float\<close> accepts.
\<close>

theorem peephole_drops_push:
  "errors (final (analyze push_program new_analyzer)) = [] \<and>
   assembly_code (generate_asm float_ok (generate push_program)) =
    [''; Generated Assembly Code'', ''; Simplified RISC-style instructions'', [],
     CHR 0x0A # ''; Function: main'', ''main:'', ''    PUSH BP'', ''    MOV BP, SP'',
     ''    PUSH #'' @ [CHR 0x22] @ ''MOV #'' @ [CHR 0x22] @ ''MOV x'' @ [CHR 0x22],
     ''    CALL f'', ''    ADD SP, #4'', ''    MOV R0, RAX'',
     ''    MOV SP, BP'', ''    POP BP'', ''    RET'', ''; End of main''] \<and>
   assembly_code (fst (optimize (generate_asm float_ok (generate push_program)))) =
    [''; Generated Assembly Code'', ''; Simplified RISC-style instructions'', [],
     CHR 0x0A # ''; Function: main'', ''main:'', ''    PUSH BP'', ''    MOV BP, SP'',
     ''    CALL f'', ''    ADD SP, #4'', ''    MOV R0, RAX'',
     ''    MOV SP, BP'', ''    POP BP'', ''    RET'', ''; End of main''] \<and>
   snd (optimize (generate_asm float_ok (generate push_program))) = 1"
  by (simp add: push_accepted optimize_def push_asm split_beta redundant_move_def split_def
      isspace_def rstrip_comma_def startswith_def Let_def)

section \<open>The parser: assignment targets\<close>

text \<open>
  Claim C9.  When \<open>parse_expression\<close> has parsed its left operand with \<open>parse_logical_or\<close>
  and the current token is \<open>=\<close>, it goes on to parse the right-hand side and builds an
  \<open>Assignment\<close> exactly when the left operand is an \<open>Identifier\<close> node; for every other
  form of expression it raises the parse error with the message "Invalid assignment
  target", located at the \<open>=\<close> token.
\<close>

theorem assignment_target_rule:
  assumes "parse_logical_or cv n p = Some (Inr (left, p1))"
    and "current_token p1 = Some t" and "tok_type t = T_ASSIGN"
  shows "parse_expression cv (Suc n) p =
     (case left of
        Identifier name \<Rightarrow>
          (case parse_expression cv n (advance_p p1) of
             None \<Rightarrow> None
           | Some (Inl e) \<Rightarrow> Some (Inl e)
           | Some (Inr (v, p2)) \<Rightarrow> Some (Inr (Assignment name v, p2)))
      | _ \<Rightarrow> Some (Inl (SyntaxError (parse_error_text (Some t) ''Invalid assignment target''))))"
  using assms by (cases left) (simp_all add: error_p_def)

theorem assignment_target_rule_witness:
  "parse_logical_or no_literals 10 (new_parser tokens_x_assign_y) =
     Some (Inr (Identifier ''x'', \<lparr>tokens_p = tokens_x_assign_y, position_p = 1\<rparr>)) \<and>
   current_token \<lparr>tokens_p = tokens_x_assign_y, position_p = 1\<rparr> =
     Some \<lparr>tok_type = T_ASSIGN, tok_value = ''='', tok_line = 1, tok_column = 3\<rparr> \<and>
   parse_expression no_literals 11 (new_parser tokens_x_assign_y) =
     Some (Inr (Assignment ''x'' (Identifier ''y''), \<lparr>tokens_p = tokens_x_assign_y, position_p = 3\<rparr>)) \<and>
   parse_logical_or no_literals 10 (new_parser tokens_call_assign_y) =
     Some (Inr (FunctionCall ''f'' [], \<lparr>tokens_p = tokens_call_assign_y, position_p = 3\<rparr>)) \<and>
   current_token \<lparr>tokens_p = tokens_call_assign_y, position_p = 3\<rparr> =
     Some \<lparr>tok_type = T_ASSIGN, tok_value = ''='', tok_line = 1, tok_column = 5\<rparr> \<and>
   parse_expression no_literals 11 (new_parser tokens_call_assign_y) =
     Some (Inl (SyntaxError ''Parse error at line 1, column 5: Invalid assignment target''))"
proof -
  let ?a = "\<lparr>tok_type = T_ASSIGN, tok_value = ''='', tok_line = 1, tok_column = 3\<rparr>"
  let ?b = "\<lparr>tok_type = T_ASSIGN, tok_value = ''='', tok_line = 1, tok_column = 5\<rparr>"
  have 1: "parse_logical_or no_literals 10 (new_parser tokens_x_assign_y) =
     Some (Inr (Identifier ''x'', \<lparr>tokens_p = tokens_x_assign_y, position_p = 1\<rparr>))"
    by code_simp
  have 2: "current_token \<lparr>tokens_p = tokens_x_assign_y, position_p = 1\<rparr> = Some ?a"
    by code_simp
  have 3: "parse_expression no_literals 10 (advance_p \<lparr>tokens_p = tokens_x_assign_y, position_p = 1\<rparr>) =
     Some (Inr (Identifier ''y'', \<lparr>tokens_p = tokens_x_assign_y, position_p = 3\<rparr>))"
    by code_simp
  have 4: "parse_logical_or no_literals 10 (new_parser tokens_call_assign_y) =
     Some (Inr (FunctionCall ''f'' [], \<lparr>tokens_p = tokens_call_assign_y, position_p = 3\<rparr>))"
    by code_simp
  have 5: "current_token \<lparr>tokens_p = tokens_call_assign_y, position_p = 3\<rparr> = Some ?b"
    by code_simp
  have 6: "parse_error_text (Some ?b) ''Invalid assignment target'' =
     ''Parse error at line 1, column 5: Invalid assignment target''"
    by code_simp
  have "parse_expression no_literals (Suc 10) (new_parser tokens_x_assign_y) =
     Some (Inr (Assignment ''x'' (Identifier ''y''), \<lparr>tokens_p = tokens_x_assign_y, position_p = 3\<rparr>))"
    using assignment_target_rule[OF 1 2] unfolding 3 by simp
  moreover have "parse_expression no_literals (Suc 10) (new_parser tokens_call_assign_y) =
     Some (Inl (SyntaxError ''Parse error at line 1, column 5: Invalid assignment target''))"
    using assignment_target_rule[OF 4 5] unfolding 6 by simp
  moreover have "Suc 10 = 11" by simp
  ultimately show ?thesis using 1 2 4 5 by metis
qed

end
